theory Spec2Isabelle
  imports Complex_Main "HOL-Library.Log_Nat" "HOL-Library.Signed_Division"
begin

section \<open>Memory: float buffers addressed through pointers\<close>

text \<open>
  The C functions of \<^verbatim>\<open>simd_vectorized.c\<close> receive \<^verbatim>\<open>float*\<close> arguments and mutate
  the buffers behind them. A memory maps an allocation (a natural number) and an element
  index inside it to the float stored there; a pointer is an allocation together with an
  element offset. Two pointers into the same allocation alias, as in C; pointers into
  different allocations never do. The element type \<open>'a\<close> is the type of the float
  values: the functions below use only \<open>0\<close>, \<open>1\<close>, \<open>+\<close>, \<open>-\<close>, \<open>*\<close> and \<open>/\<close> on it, so
  they can be read with IEEE binary32 arithmetic (the type \<open>f32\<close> of this theory) or
  with exact arithmetic (any field).
\<close>

type_synonym 'a memory = "nat \<Rightarrow> int \<Rightarrow> 'a"

datatype ptr = Ptr (blk: nat) (off: int)

definition ptr_add :: "ptr \<Rightarrow> int \<Rightarrow> ptr" where
  \<comment> \<open>\<^verbatim>\<open>&p[i]\<close>\<close>
  "ptr_add p i = Ptr (blk p) (off p + i)"

definition load :: "'a memory \<Rightarrow> ptr \<Rightarrow> int \<Rightarrow> 'a" where
  \<comment> \<open>\<^verbatim>\<open>p[i]\<close> read\<close>
  "load m p i = m (blk p) (off p + i)"

definition store :: "'a memory \<Rightarrow> ptr \<Rightarrow> int \<Rightarrow> 'a \<Rightarrow> 'a memory" where
  \<comment> \<open>\<^verbatim>\<open>p[i] = v\<close>\<close>
  "store m p i v = (\<lambda>b j. if b = blk p \<and> j = off p + i then v else m b j)"

section \<open>box1DFloatC\<close>

text \<open>
  The local variables of \<^verbatim>\<open>box1DFloatC\<close> that live across its loops, together with the
  memory. The last two fields are history variables that the C code does not have: the
  output indices written so far and the divisor of every division performed so far, both
  in execution order.
\<close>

record 'a box_state =
  mem :: "'a memory"
  li :: int
  ri :: int
  oi :: int
  sum_acc :: 'a
  currentWindowSize :: 'a
  written :: "int list"
  divisors :: "'a list"

text \<open>Phase 1 (lines 58-62): initial accumulation, no output.\<close>

definition phase1_body ::
  "ptr \<Rightarrow> int \<Rightarrow> ('a::{plus,one}) box_state \<Rightarrow> 'a box_state" where
  "phase1_body invec stride s =
     s\<lparr>sum_acc := sum_acc s + load (mem s) invec (ri s),
       currentWindowSize := currentWindowSize s + 1,
       ri := ri s + stride\<rparr>"

function phase1 ::
  "ptr \<Rightarrow> int \<Rightarrow> int \<Rightarrow> int \<Rightarrow> ('a::{plus,one}) box_state \<Rightarrow> 'a box_state" where
  "phase1 invec stride phase1Nreps i s =
     (if i < phase1Nreps
      then phase1 invec stride phase1Nreps (i + 1) (phase1_body invec stride s)
      else s)"
  by pat_completeness auto
termination
  by (relation "measure (\<lambda>(invec, stride, n, i, s). nat (n - i))") auto

text \<open>Phase 2 (lines 65-71): initial writes with a growing window.\<close>

definition phase2_body ::
  "ptr \<Rightarrow> ptr \<Rightarrow> int \<Rightarrow> ('a::{plus,one,inverse}) box_state \<Rightarrow> 'a box_state" where
  "phase2_body invec outVec stride s =
     (let sum' = sum_acc s + load (mem s) invec (ri s);
          cws' = currentWindowSize s + 1
      in s\<lparr>sum_acc := sum',
            currentWindowSize := cws',
            mem := store (mem s) outVec (oi s) (sum' / cws'),
            ri := ri s + stride,
            oi := oi s + stride,
            written := written s @ [oi s],
            divisors := divisors s @ [cws']\<rparr>)"

function phase2 ::
  "ptr \<Rightarrow> ptr \<Rightarrow> int \<Rightarrow> int \<Rightarrow> int \<Rightarrow> ('a::{plus,one,inverse}) box_state \<Rightarrow> 'a box_state"
  where
  "phase2 invec outVec stride phase2Nreps i s =
     (if i < phase2Nreps
      then phase2 invec outVec stride phase2Nreps (i + 1) (phase2_body invec outVec stride s)
      else s)"
  by pat_completeness auto
termination
  by (relation "measure (\<lambda>(invec, outVec, stride, n, i, s). nat (n - i))") auto

text \<open>
  Phase 3, unrolled loop (lines 124-160): eight running sums by a serial recurrence, all
  read before the first of the eight writes, each scaled by the reciprocal \<open>denom\<close>.
\<close>

definition phase3_block_body ::
  "ptr \<Rightarrow> ptr \<Rightarrow> int \<Rightarrow> 'a \<Rightarrow> ('a::{plus,minus,times}) box_state \<Rightarrow> 'a box_state" where
  "phase3_block_body invec outVec stride denom s =
     (let m = mem s;
          buf0 = sum_acc s + load m invec (ri s + stride * 0) - load m invec (li s + stride * 0);
          buf1 = buf0 + load m invec (ri s + stride * 1) - load m invec (li s + stride * 1);
          buf2 = buf1 + load m invec (ri s + stride * 2) - load m invec (li s + stride * 2);
          buf3 = buf2 + load m invec (ri s + stride * 3) - load m invec (li s + stride * 3);
          buf4 = buf3 + load m invec (ri s + stride * 4) - load m invec (li s + stride * 4);
          buf5 = buf4 + load m invec (ri s + stride * 5) - load m invec (li s + stride * 5);
          buf6 = buf5 + load m invec (ri s + stride * 6) - load m invec (li s + stride * 6);
          buf7 = buf6 + load m invec (ri s + stride * 7) - load m invec (li s + stride * 7);
          m0 = store m outVec (oi s) (buf0 * denom);
          m1 = store m0 outVec (oi s + stride * 1) (buf1 * denom);
          m2 = store m1 outVec (oi s + stride * 2) (buf2 * denom);
          m3 = store m2 outVec (oi s + stride * 3) (buf3 * denom);
          m4 = store m3 outVec (oi s + stride * 4) (buf4 * denom);
          m5 = store m4 outVec (oi s + stride * 5) (buf5 * denom);
          m6 = store m5 outVec (oi s + stride * 6) (buf6 * denom);
          m7 = store m6 outVec (oi s + stride * 7) (buf7 * denom)
      in s\<lparr>mem := m7,
            li := li s + stride * 8,
            ri := ri s + stride * 8,
            oi := oi s + stride * 8,
            sum_acc := buf7,
            written := written s @ [oi s, oi s + stride * 1, oi s + stride * 2,
                         oi s + stride * 3, oi s + stride * 4, oi s + stride * 5,
                         oi s + stride * 6, oi s + stride * 7]\<rparr>)"

function phase3_block ::
  "ptr \<Rightarrow> ptr \<Rightarrow> int \<Rightarrow> 'a \<Rightarrow> int \<Rightarrow> int \<Rightarrow> ('a::{plus,minus,times}) box_state
     \<Rightarrow> int \<times> 'a box_state" where
  "phase3_block invec outVec stride denom phase3Nreps i s =
     (if i < phase3Nreps - 8
      then phase3_block invec outVec stride denom phase3Nreps (i + 8)
             (phase3_block_body invec outVec stride denom s)
      else (i, s))"
  by pat_completeness auto
termination
  by (relation "measure (\<lambda>(invec, outVec, stride, denom, n, i, s). nat (n - 8 - i))") auto

text \<open>Phase 3, single-step loop (lines 162-169), continuing from the counter \<open>i\<close>.\<close>

definition phase3_body ::
  "ptr \<Rightarrow> ptr \<Rightarrow> int \<Rightarrow> ('a::{plus,minus,inverse}) box_state \<Rightarrow> 'a box_state" where
  "phase3_body invec outVec stride s =
     (let sum' = sum_acc s + load (mem s) invec (ri s);
          sum'' = sum' - load (mem s) invec (li s)
      in s\<lparr>sum_acc := sum'',
            mem := store (mem s) outVec (oi s) (sum'' / currentWindowSize s),
            li := li s + stride,
            ri := ri s + stride,
            oi := oi s + stride,
            written := written s @ [oi s],
            divisors := divisors s @ [currentWindowSize s]\<rparr>)"

function phase3 ::
  "ptr \<Rightarrow> ptr \<Rightarrow> int \<Rightarrow> int \<Rightarrow> int \<Rightarrow> ('a::{plus,minus,inverse}) box_state \<Rightarrow> 'a box_state"
  where
  "phase3 invec outVec stride phase3Nreps i s =
     (if i < phase3Nreps
      then phase3 invec outVec stride phase3Nreps (i + 1) (phase3_body invec outVec stride s)
      else s)"
  by pat_completeness auto
termination
  by (relation "measure (\<lambda>(invec, outVec, stride, n, i, s). nat (n - i))") auto

text \<open>Phase 4 (lines 172-178): final writes with a shrinking window.\<close>

definition phase4_body ::
  "ptr \<Rightarrow> ptr \<Rightarrow> int \<Rightarrow> ('a::{minus,one,inverse}) box_state \<Rightarrow> 'a box_state" where
  "phase4_body invec outVec stride s =
     (let sum' = sum_acc s - load (mem s) invec (li s);
          cws' = currentWindowSize s - 1
      in s\<lparr>sum_acc := sum',
            currentWindowSize := cws',
            mem := store (mem s) outVec (oi s) (sum' / cws'),
            li := li s + stride,
            oi := oi s + stride,
            written := written s @ [oi s],
            divisors := divisors s @ [cws']\<rparr>)"

function phase4 ::
  "ptr \<Rightarrow> ptr \<Rightarrow> int \<Rightarrow> int \<Rightarrow> int \<Rightarrow> ('a::{minus,one,inverse}) box_state \<Rightarrow> 'a box_state"
  where
  "phase4 invec outVec stride phase4Nreps i s =
     (if i < phase4Nreps
      then phase4 invec outVec stride phase4Nreps (i + 1) (phase4_body invec outVec stride s)
      else s)"
  by pat_completeness auto
termination
  by (relation "measure (\<lambda>(invec, outVec, stride, n, i, s). nat (n - i))") auto

text \<open>
  The whole function, returning the final state. \<^verbatim>\<open>int\<close> division in C truncates
  towards zero (\<open>sdiv\<close>). The C \<^verbatim>\<open>int\<close>s are modelled by unbounded integers: signed
  overflow is undefined behaviour, so the model describes the executions without it.
\<close>

definition box1DFloatC_run ::
  "('a::{zero,one,plus,minus,times,inverse}) memory \<Rightarrow> ptr \<Rightarrow> ptr \<Rightarrow> int \<Rightarrow> int \<Rightarrow> int
     \<Rightarrow> 'a box_state" where
  "box1DFloatC_run m invec outVec vectorLength stride fullWindowSize =
     (let halfWindowSize = (fullWindowSize + 2) sdiv 2;
          phase1Nreps = halfWindowSize - 1;
          phase2Nreps = fullWindowSize - halfWindowSize + 1;
          phase3Nreps = vectorLength - fullWindowSize;
          phase4Nreps = halfWindowSize - 1;
          s0 = \<lparr>mem = m, li = 0, ri = 0, oi = 0, sum_acc = 0, currentWindowSize = 0,
                written = [], divisors = []\<rparr>;
          s1 = phase1 invec stride phase1Nreps 0 s0;
          s2 = phase2 invec outVec stride phase2Nreps 0 s1;
          denom = 1 / currentWindowSize s2;
          s2' = s2\<lparr>divisors := divisors s2 @ [currentWindowSize s2]\<rparr>;
          (i, s3) = phase3_block invec outVec stride denom phase3Nreps 0 s2';
          s3' = phase3 invec outVec stride phase3Nreps i s3
      in phase4 invec outVec stride phase4Nreps 0 s3')"

definition box1DFloatC ::
  "('a::{zero,one,plus,minus,times,inverse}) memory \<Rightarrow> ptr \<Rightarrow> ptr \<Rightarrow> int \<Rightarrow> int \<Rightarrow> int
     \<Rightarrow> 'a memory" where
  "box1DFloatC m invec outVec vectorLength stride fullWindowSize =
     mem (box1DFloatC_run m invec outVec vectorLength stride fullWindowSize)"

section \<open>The two-dimensional passes and the iterated filter\<close>

function boxAlongColsFloatC_loop ::
  "ptr \<Rightarrow> ptr \<Rightarrow> int \<Rightarrow> int \<Rightarrow> int \<Rightarrow> int
     \<Rightarrow> ('a::{zero,one,plus,minus,times,inverse}) memory \<Rightarrow> 'a memory" where
  "boxAlongColsFloatC_loop input output numRows numCols windowSize j m =
     (if j < numCols
      then boxAlongColsFloatC_loop input output numRows numCols windowSize (j + 1)
             (box1DFloatC m (ptr_add input j) (ptr_add output j) numRows numCols windowSize)
      else m)"
  by pat_completeness auto
termination
  by (relation "measure (\<lambda>(input, output, numRows, numCols, w, j, m). nat (numCols - j))")
     auto

definition boxAlongColsFloatC ::
  "('a::{zero,one,plus,minus,times,inverse}) memory \<Rightarrow> ptr \<Rightarrow> ptr \<Rightarrow> int \<Rightarrow> int \<Rightarrow> int
     \<Rightarrow> 'a memory" where
  "boxAlongColsFloatC m input output numRows numCols windowSize =
     boxAlongColsFloatC_loop input output numRows numCols windowSize 0 m"

function boxAlongRowsFloatC_loop ::
  "ptr \<Rightarrow> ptr \<Rightarrow> int \<Rightarrow> int \<Rightarrow> int \<Rightarrow> int
     \<Rightarrow> ('a::{zero,one,plus,minus,times,inverse}) memory \<Rightarrow> 'a memory" where
  "boxAlongRowsFloatC_loop input output numRows numCols windowSize i m =
     (if i < numRows
      then boxAlongRowsFloatC_loop input output numRows numCols windowSize (i + 1)
             (box1DFloatC m (ptr_add input (i * numCols)) (ptr_add output (i * numCols))
                numCols 1 windowSize)
      else m)"
  by pat_completeness auto
termination
  by (relation "measure (\<lambda>(input, output, numRows, numCols, w, i, m). nat (numRows - i))")
     auto

definition boxAlongRowsFloatC ::
  "('a::{zero,one,plus,minus,times,inverse}) memory \<Rightarrow> ptr \<Rightarrow> ptr \<Rightarrow> int \<Rightarrow> int \<Rightarrow> int
     \<Rightarrow> 'a memory" where
  "boxAlongRowsFloatC m input output numRows numCols windowSize =
     boxAlongRowsFloatC_loop input output numRows numCols windowSize 0 m"

text \<open>One repetition of the loop body of \<^verbatim>\<open>jaroszFilterFloat\<close> (lines 203-204).\<close>

definition jarosz_body ::
  "ptr \<Rightarrow> ptr \<Rightarrow> int \<Rightarrow> int \<Rightarrow> int \<Rightarrow> int
     \<Rightarrow> ('a::{zero,one,plus,minus,times,inverse}) memory \<Rightarrow> 'a memory" where
  "jarosz_body buffer1 buffer2 numRows numCols windowSizeAlongRows windowSizeAlongCols m =
     boxAlongColsFloatC
       (boxAlongRowsFloatC m buffer1 buffer2 numRows numCols windowSizeAlongRows)
       buffer2 buffer1 numRows numCols windowSizeAlongCols"

function jaroszFilterFloat_loop ::
  "ptr \<Rightarrow> ptr \<Rightarrow> int \<Rightarrow> int \<Rightarrow> int \<Rightarrow> int \<Rightarrow> int \<Rightarrow> int
     \<Rightarrow> ('a::{zero,one,plus,minus,times,inverse}) memory \<Rightarrow> 'a memory" where
  "jaroszFilterFloat_loop buffer1 buffer2 numRows numCols wr wc nreps i m =
     (if i < nreps
      then jaroszFilterFloat_loop buffer1 buffer2 numRows numCols wr wc nreps (i + 1)
             (jarosz_body buffer1 buffer2 numRows numCols wr wc m)
      else m)"
  by pat_completeness auto
termination
  by (relation "measure (\<lambda>(b1, b2, numRows, numCols, wr, wc, nreps, i, m). nat (nreps - i))")
     auto

definition jaroszFilterFloat ::
  "('a::{zero,one,plus,minus,times,inverse}) memory \<Rightarrow> ptr \<Rightarrow> ptr \<Rightarrow> int \<Rightarrow> int \<Rightarrow> int
     \<Rightarrow> int \<Rightarrow> int \<Rightarrow> 'a memory" where
  "jaroszFilterFloat m buffer1 buffer2 numRows numCols windowSizeAlongRows
       windowSizeAlongCols nreps =
     jaroszFilterFloat_loop buffer1 buffer2 numRows numCols windowSizeAlongRows
       windowSizeAlongCols nreps 0 m"

section \<open>The single-step variant of phase 3\<close>

text \<open>
  \<^verbatim>\<open>box1DFloatC\<close> with the unrolled loop of lines 124-160 taken out, so that the whole of
  phase 3 runs through the single-step loop of lines 162-169 (add the right sample,
  subtract the left sample, divide by the window size). It is the reference that the
  unrolled loop is compared with.
\<close>

definition box1DFloatC_fallback_run ::
  "('a::{zero,one,plus,minus,times,inverse}) memory \<Rightarrow> ptr \<Rightarrow> ptr \<Rightarrow> int \<Rightarrow> int \<Rightarrow> int
     \<Rightarrow> 'a box_state" where
  "box1DFloatC_fallback_run m invec outVec vectorLength stride fullWindowSize =
     (let halfWindowSize = (fullWindowSize + 2) sdiv 2;
          phase1Nreps = halfWindowSize - 1;
          phase2Nreps = fullWindowSize - halfWindowSize + 1;
          phase3Nreps = vectorLength - fullWindowSize;
          phase4Nreps = halfWindowSize - 1;
          s0 = \<lparr>mem = m, li = 0, ri = 0, oi = 0, sum_acc = 0, currentWindowSize = 0,
                written = [], divisors = []\<rparr>;
          s1 = phase1 invec stride phase1Nreps 0 s0;
          s2 = phase2 invec outVec stride phase2Nreps 0 s1;
          s2' = s2\<lparr>divisors := divisors s2 @ [currentWindowSize s2]\<rparr>;
          s3' = phase3 invec outVec stride phase3Nreps 0 s2'
      in phase4 invec outVec stride phase4Nreps 0 s3')"

definition box1DFloatC_fallback ::
  "('a::{zero,one,plus,minus,times,inverse}) memory \<Rightarrow> ptr \<Rightarrow> ptr \<Rightarrow> int \<Rightarrow> int \<Rightarrow> int
     \<Rightarrow> 'a memory" where
  "box1DFloatC_fallback m invec outVec vectorLength stride fullWindowSize =
     mem (box1DFloatC_fallback_run m invec outVec vectorLength stride fullWindowSize)"

section \<open>IEEE 754 binary32 arithmetic\<close>

text \<open>
  The C type \<^verbatim>\<open>float\<close> on the targets of this code (x86-64 with AVX2) is IEEE 754
  binary32, and every operation of \<^verbatim>\<open>box1DFloatC\<close> is a single binary32 operation
  rounded to nearest, ties to even. A value is a finite number (\<open>Num r\<close>, with
  \<open>Num 0\<close> the positive zero), the negative zero, an infinity (\<open>Inf True\<close> is the
  negative one) or a NaN; NaN payloads are not distinguished. Each operation computes
  the exact rational result and rounds it with \<open>round32\<close>: 24 significant bits, exponents
  from -126 to 127, gradual underflow, overflow to infinity.
\<close>

datatype f32 = Num rat | NegZero | Inf bool | NaN

definition ilog2 :: "rat \<Rightarrow> int" where
  \<comment> \<open>the integer \<open>e\<close> with \<open>2 powi e \<le> a < 2 powi (e + 1)\<close>, for \<open>0 < a\<close>\<close>
  "ilog2 a = (if 1 \<le> a then bitlen \<lfloor>a\<rfloor> - 1 else - bitlen (\<lceil>1 / a\<rceil> - 1))"

definition round_half_even :: "rat \<Rightarrow> int" where
  "round_half_even q =
     (let f = \<lfloor>q\<rfloor>; r = q - of_int f
      in if r < 1 / 2 then f else if 1 / 2 < r then f + 1 else if even f then f else f + 1)"

definition signed_zero :: "bool \<Rightarrow> f32" where
  "signed_zero s = (if s then NegZero else Num 0)"

definition round32 :: "rat \<Rightarrow> f32" where
  \<comment> \<open>the binary32 value nearest to a nonzero rational\<close>
  "round32 r =
     (let a = \<bar>r\<bar>;
          e = max (ilog2 a) (- 126);
          u = 2 powi (e - 23);
          n = round_half_even (a / u);
          v = of_int n * u
      in if 2 ^ 128 \<le> v then Inf (r < 0)
         else if n = 0 then signed_zero (r < 0)
         else Num (if r < 0 then - v else v))"

fun f32_val :: "f32 \<Rightarrow> rat" where
  "f32_val (Num r) = r"
| "f32_val x = 0"

fun signbit :: "f32 \<Rightarrow> bool" where
  "signbit (Num r) = (r < 0)"
| "signbit NegZero = True"
| "signbit (Inf s) = s"
| "signbit NaN = False"

fun is_zero :: "f32 \<Rightarrow> bool" where
  "is_zero (Num r) = (r = 0)"
| "is_zero NegZero = True"
| "is_zero x = False"

fun f32_neg :: "f32 \<Rightarrow> f32" where
  "f32_neg (Num r) = (if r = 0 then NegZero else Num (- r))"
| "f32_neg NegZero = Num 0"
| "f32_neg (Inf s) = Inf (\<not> s)"
| "f32_neg NaN = NaN"

fun f32_add :: "f32 \<Rightarrow> f32 \<Rightarrow> f32" where
  "f32_add NaN y = NaN"
| "f32_add x NaN = NaN"
| "f32_add (Inf s) (Inf t) = (if s = t then Inf s else NaN)"
| "f32_add (Inf s) y = Inf s"
| "f32_add x (Inf t) = Inf t"
| "f32_add x y =
     (let r = f32_val x + f32_val y
      in if r = 0 then signed_zero (signbit x \<and> signbit y) else round32 r)"

fun f32_mul :: "f32 \<Rightarrow> f32 \<Rightarrow> f32" where
  "f32_mul NaN y = NaN"
| "f32_mul x NaN = NaN"
| "f32_mul (Inf s) y = (if is_zero y then NaN else Inf (s \<noteq> signbit y))"
| "f32_mul x (Inf t) = (if is_zero x then NaN else Inf (signbit x \<noteq> t))"
| "f32_mul x y =
     (let r = f32_val x * f32_val y
      in if r = 0 then signed_zero (signbit x \<noteq> signbit y) else round32 r)"

fun f32_div :: "f32 \<Rightarrow> f32 \<Rightarrow> f32" where
  "f32_div NaN y = NaN"
| "f32_div x NaN = NaN"
| "f32_div (Inf s) (Inf t) = NaN"
| "f32_div (Inf s) y = Inf (s \<noteq> signbit y)"
| "f32_div x (Inf t) = signed_zero (signbit x \<noteq> t)"
| "f32_div x y =
     (if is_zero y then (if is_zero x then NaN else Inf (signbit x \<noteq> signbit y))
      else if is_zero x then signed_zero (signbit x \<noteq> signbit y)
      else round32 (f32_val x / f32_val y))"

fun f32_less :: "f32 \<Rightarrow> f32 \<Rightarrow> bool" where
  "f32_less NaN y = False"
| "f32_less x NaN = False"
| "f32_less (Inf s) (Inf t) = (s \<and> \<not> t)"
| "f32_less (Inf s) y = s"
| "f32_less x (Inf t) = (\<not> t)"
| "f32_less x y = (f32_val x < f32_val y)"

fun f32_eq :: "f32 \<Rightarrow> f32 \<Rightarrow> bool" where
  "f32_eq NaN y = False"
| "f32_eq x NaN = False"
| "f32_eq (Inf s) (Inf t) = (s = t)"
| "f32_eq (Inf s) y = False"
| "f32_eq x (Inf t) = False"
| "f32_eq x y = (f32_val x = f32_val y)"

text \<open>
  The C operators on \<^verbatim>\<open>float\<close>: \<open>0\<close> and \<open>1\<close> are the constants \<^verbatim>\<open>0.0\<close> and \<^verbatim>\<open>1\<close>
  converted to \<^verbatim>\<open>float\<close>, \<open>x - y\<close> is \<open>x + (- y)\<close> as in IEEE 754, and \<open><\<close>, \<open>\<le>\<close> are
  the C comparisons (false on NaN, the two zeros equal).
\<close>

instantiation f32 :: "{zero,one,plus,minus,times,inverse,ord}"
begin
definition zero_f32 :: f32 where "zero_f32 = Num 0"
definition one_f32 :: f32 where "one_f32 = Num 1"
definition plus_f32 :: "f32 \<Rightarrow> f32 \<Rightarrow> f32" where "plus_f32 x y = f32_add x y"
definition minus_f32 :: "f32 \<Rightarrow> f32 \<Rightarrow> f32" where "minus_f32 x y = f32_add x (f32_neg y)"
definition times_f32 :: "f32 \<Rightarrow> f32 \<Rightarrow> f32" where "times_f32 x y = f32_mul x y"
definition divide_f32 :: "f32 \<Rightarrow> f32 \<Rightarrow> f32" where "divide_f32 x y = f32_div x y"
definition inverse_f32 :: "f32 \<Rightarrow> f32" where "inverse_f32 x = f32_div (Num 1) x"
definition less_f32 :: "f32 \<Rightarrow> f32 \<Rightarrow> bool" where "less_f32 x y = f32_less x y"
definition less_eq_f32 :: "f32 \<Rightarrow> f32 \<Rightarrow> bool" where
  "less_eq_f32 x y = (f32_less x y \<or> f32_eq x y)"
instance ..
end

section \<open>Auxiliary functions for the proofs\<close>

text \<open>
  The sequences that the loops of \<^verbatim>\<open>box1DFloatC\<close> compute, written with the operations
  in the order in which the code applies them (no law of arithmetic is used): counting
  the window size up and down, accumulating samples, sliding the window (add the right
  sample, then subtract the left one) and shrinking it.
\<close>

primrec count_up :: "('a::{plus,one}) \<Rightarrow> nat \<Rightarrow> 'a" where
  "count_up c 0 = c"
| "count_up c (Suc k) = count_up c k + 1"

primrec count_down :: "('a::{minus,one}) \<Rightarrow> nat \<Rightarrow> 'a" where
  "count_down c 0 = c"
| "count_down c (Suc k) = count_down c k - 1"

primrec acc :: "(nat \<Rightarrow> 'a) \<Rightarrow> ('a::plus) \<Rightarrow> nat \<Rightarrow> 'a" where
  "acc x s 0 = s"
| "acc x s (Suc k) = acc x s k + x k"

primrec slide :: "(nat \<Rightarrow> 'a) \<Rightarrow> (nat \<Rightarrow> 'a) \<Rightarrow> ('a::{plus,minus}) \<Rightarrow> nat \<Rightarrow> 'a" where
  "slide r l s 0 = s"
| "slide r l s (Suc k) = slide r l s k + r k - l k"

primrec shrink :: "(nat \<Rightarrow> 'a) \<Rightarrow> ('a::minus) \<Rightarrow> nat \<Rightarrow> 'a" where
  "shrink l s 0 = s"
| "shrink l s (Suc k) = shrink l s k - l k"

text \<open>\<open>k\<close> successive stores through \<open>p\<close>, at the indices \<open>o0\<close>, \<open>o0 + st\<close>, \<dots>\<close>

primrec writes :: "'a memory \<Rightarrow> ptr \<Rightarrow> int \<Rightarrow> int \<Rightarrow> (nat \<Rightarrow> 'a) \<Rightarrow> nat \<Rightarrow> 'a memory" where
  "writes m p o0 st f 0 = m"
| "writes m p o0 st f (Suc k) = store (writes m p o0 st f k) p (o0 + int k * st) (f k)"

definition init_state :: "('a::zero) memory \<Rightarrow> 'a box_state" where
  "init_state m = \<lparr>mem = m, li = 0, ri = 0, oi = 0, sum_acc = 0, currentWindowSize = 0,
                written = [], divisors = []\<rparr>"

text \<open>The number of iterations of the unrolled loop.\<close>

definition blocks :: "int \<Rightarrow> int \<Rightarrow> nat" where
  "blocks n w = nat ((n - w - 1) div 8)"

text \<open>The state after phase 2, and after phase 3 run with \<open>B\<close> unrolled iterations.\<close>

definition after2 ::
  "('a::{zero,one,plus,minus,times,inverse}) memory \<Rightarrow> ptr \<Rightarrow> ptr \<Rightarrow> int \<Rightarrow> int
     \<Rightarrow> 'a box_state" where
  "after2 m invec outVec stride w =
     (phase2_body invec outVec stride ^^ (nat w - nat w div 2))
       ((phase1_body invec stride ^^ (nat w div 2)) (init_state m))"

definition after3 ::
  "('a::{zero,one,plus,minus,times,inverse}) memory \<Rightarrow> ptr \<Rightarrow> ptr \<Rightarrow> int \<Rightarrow> int \<Rightarrow> int
     \<Rightarrow> nat \<Rightarrow> 'a box_state" where
  "after3 m invec outVec n stride w B =
     (let s2 = after2 m invec outVec stride w;
          s2' = s2\<lparr>divisors := divisors s2 @ [currentWindowSize s2]\<rparr>;
          s3 = (phase3_block_body invec outVec stride (1 / currentWindowSize s2) ^^ B) s2'
      in (phase3_body invec outVec stride ^^ (nat (n - w) - 8 * B)) s3)"

text \<open>
  The value that the run stores at output position \<open>k\<close>, as a function of the input
  samples \<open>x\<close>, the length \<open>N\<close>, the window size \<open>W\<close> and the number \<open>B\<close> of unrolled
  iterations.
\<close>

definition box_out ::
  "(nat \<Rightarrow> 'a) \<Rightarrow> nat \<Rightarrow> nat \<Rightarrow> nat \<Rightarrow> nat \<Rightarrow> ('a::{zero,one,plus,minus,times,inverse})" where
  "box_out x N W B k =
     (let P1 = W div 2; P2 = W - P1; P3 = N - W;
          c = count_up 0 W;
          sl = slide (\<lambda>j. x (W + j)) x (acc x 0 W)
      in if k < P2 then acc x 0 (P1 + Suc k) / count_up 0 (P1 + Suc k)
         else if k < P2 + 8 * B then sl (Suc (k - P2)) * (1 / c)
         else if k < P2 + P3 then sl (Suc (k - P2)) / c
         else shrink (\<lambda>j. x (P3 + j)) (sl P3) (Suc (k - P2 - P3))
                / count_down c (Suc (k - P2 - P3)))"

text \<open>
  The arithmetic mean of the samples whose index lies in \<open>[k - before, k + after]\<close> and in
  \<open>[0, N)\<close>, divided by the number of those samples.
\<close>

definition window_mean :: "(nat \<Rightarrow> 'a::field) \<Rightarrow> nat \<Rightarrow> nat \<Rightarrow> nat \<Rightarrow> nat \<Rightarrow> 'a" where
  "window_mean x N before after k =
     (let lo = k - before; hi = min (N - 1) (k + after)
      in sum_list (map x [lo..<Suc hi]) / of_nat (Suc hi - lo))"

text \<open>A memory for examples: allocation 0 holds \<open>xs\<close> from index 0, every other cell \<open>d\<close>.\<close>

definition buf_of :: "'a \<Rightarrow> 'a list \<Rightarrow> 'a memory" where
  "buf_of d xs = (\<lambda>b i. if b = 0 \<and> 0 \<le> i \<and> i < int (length xs) then xs ! nat i else d)"





section \<open>The loops as iterated bodies\<close>

text \<open>
  No loop body reads its counter, so each \<^verbatim>\<open>for\<close> loop applies its body a number of
  times that depends on the bounds only.
\<close>

lemma phase1_funpow:
  "phase1 invec stride p i s = (phase1_body invec stride ^^ nat (p - i)) s"
proof (induction invec stride p i s rule: phase1.induct)
  case (1 invec stride p i s)
  show ?case
  proof (cases "i < p")
    case True
    then have "nat (p - i) = Suc (nat (p - (i + 1)))" by simp
    with True 1 show ?thesis by (simp add: funpow_swap1 del: phase1.simps add: phase1.simps[of invec stride p i s])
  next
    case False
    then show ?thesis by simp
  qed
qed

lemma phase3_block_funpow:
  "phase3_block invec outVec stride denom p i s =
     (i + 8 * int (nat ((p - i - 1) div 8)),
      (phase3_block_body invec outVec stride denom ^^ nat ((p - i - 1) div 8)) s)"
proof (induction invec outVec stride denom p i s rule: phase3_block.induct)
  case (1 invec outVec stride denom p i s)
  show ?case
  proof (cases "i < p - 8")
    case True
    then have "nat ((p - i - 1) div 8) = Suc (nat ((p - (i + 8) - 1) div 8))" by simp
    with True 1 show ?thesis by (simp add: funpow_swap1 del: phase3_block.simps add: phase3_block.simps[of invec outVec stride denom p i s])
  next
    case False
    then have "nat ((p - i - 1) div 8) = 0" by simp
    with False show ?thesis by simp
  qed
qed

lemma phase1_control:
  "li ((phase1_body invec stride ^^ k) s) = li s \<and>
   ri ((phase1_body invec stride ^^ k) s) = ri s + int k * stride \<and>
   oi ((phase1_body invec stride ^^ k) s) = oi s \<and>
   mem ((phase1_body invec stride ^^ k) s) = mem s \<and>
   currentWindowSize ((phase1_body invec stride ^^ k) s) = count_up (currentWindowSize s) k \<and>
   written ((phase1_body invec stride ^^ k) s) = written s \<and>
   divisors ((phase1_body invec stride ^^ k) s) = divisors s"
  by (induction k) (simp_all add: phase1_body_def algebra_simps)

lemma phase2_control:
  "li ((phase2_body invec outVec stride ^^ k) s) = li s \<and>
   ri ((phase2_body invec outVec stride ^^ k) s) = ri s + int k * stride \<and>
   oi ((phase2_body invec outVec stride ^^ k) s) = oi s + int k * stride \<and>
   currentWindowSize ((phase2_body invec outVec stride ^^ k) s) = count_up (currentWindowSize s) k \<and>
   written ((phase2_body invec outVec stride ^^ k) s) = written s @ map (\<lambda>j. oi s + int j * stride) [0..<k] \<and>
   divisors ((phase2_body invec outVec stride ^^ k) s) = divisors s @ map (\<lambda>j. count_up (currentWindowSize s) (Suc j)) [0..<k]"
  by (induction k) (simp_all add: phase2_body_def Let_def algebra_simps)

lemma phase3_control:
  "li ((phase3_body invec outVec stride ^^ k) s) = li s + int k * stride \<and>
   ri ((phase3_body invec outVec stride ^^ k) s) = ri s + int k * stride \<and>
   oi ((phase3_body invec outVec stride ^^ k) s) = oi s + int k * stride \<and>
   currentWindowSize ((phase3_body invec outVec stride ^^ k) s) = currentWindowSize s \<and>
   written ((phase3_body invec outVec stride ^^ k) s) = written s @ map (\<lambda>j. oi s + int j * stride) [0..<k] \<and>
   divisors ((phase3_body invec outVec stride ^^ k) s) = divisors s @ replicate k (currentWindowSize s)"
  by (induction k) (simp_all add: phase3_body_def Let_def algebra_simps replicate_append_same)

lemma phase4_control:
  "li ((phase4_body invec outVec stride ^^ k) s) = li s + int k * stride \<and>
   ri ((phase4_body invec outVec stride ^^ k) s) = ri s \<and>
   oi ((phase4_body invec outVec stride ^^ k) s) = oi s + int k * stride \<and>
   currentWindowSize ((phase4_body invec outVec stride ^^ k) s) = count_down (currentWindowSize s) k \<and>
   written ((phase4_body invec outVec stride ^^ k) s) = written s @ map (\<lambda>j. oi s + int j * stride) [0..<k] \<and>
   divisors ((phase4_body invec outVec stride ^^ k) s) = divisors s @ map (\<lambda>j. count_down (currentWindowSize s) (Suc j)) [0..<k]"
  by (induction k) (simp_all add: phase4_body_def Let_def algebra_simps)

lemma upt_8: "[0..<8] = [0,1,2,3,4,5,6,7]"
  by (simp add: upt_rec)

lemma block_body_fields:
  "li (phase3_block_body invec outVec stride denom s) = li s + 8 * stride"
  "ri (phase3_block_body invec outVec stride denom s) = ri s + 8 * stride"
  "oi (phase3_block_body invec outVec stride denom s) = oi s + 8 * stride"
  "currentWindowSize (phase3_block_body invec outVec stride denom s) = currentWindowSize s"
  "divisors (phase3_block_body invec outVec stride denom s) = divisors s"
  "written (phase3_block_body invec outVec stride denom s) =
     written s @ map (\<lambda>j. oi s + int j * stride) [0..<8]"
  by (simp_all add: phase3_block_body_def Let_def upt_8)

lemma upt_block: "[0..<8 * Suc k] = [0..<8 * k] @ map (\<lambda>j. 8 * k + j) [0..<8]"
proof -
  have "[0..<8 * k + 8] = [0..<8 * k] @ [8 * k..<8 * k + 8]"
    by (rule upt_add_eq_append) simp
  moreover have "[8 * k..<8 * k + 8] = map (\<lambda>j. j + 8 * k) [0..<8]"
    by (simp only: map_add_upt add.commute)
  ultimately show ?thesis by (simp add: add.commute)
qed

lemma phase3_block_control:
  "li ((phase3_block_body invec outVec stride denom ^^ k) s) = li s + int (8 * k) * stride \<and>
   ri ((phase3_block_body invec outVec stride denom ^^ k) s) = ri s + int (8 * k) * stride \<and>
   oi ((phase3_block_body invec outVec stride denom ^^ k) s) = oi s + int (8 * k) * stride \<and>
   currentWindowSize ((phase3_block_body invec outVec stride denom ^^ k) s) = currentWindowSize s \<and>
   written ((phase3_block_body invec outVec stride denom ^^ k) s) = written s @ map (\<lambda>j. oi s + int j * stride) [0..<8 * k] \<and>
   divisors ((phase3_block_body invec outVec stride denom ^^ k) s) = divisors s"
proof (induction k)
  case 0
  show ?case by simp
next
  case (Suc k)
  have v: "map (\<lambda>j. oi s + int j * stride) [0..<8 * Suc k] =
     map (\<lambda>j. oi s + int j * stride) [0..<8 * k] @ map (\<lambda>j. oi s + int (8 * k) * stride + int j * stride) [0..<8]"
    unfolding upt_block by (simp add: algebra_simps)
  from Suc show ?case
    unfolding v by (simp add: block_body_fields algebra_simps)
qed

lemma phase2_funpow:
  "phase2 invec outVec stride p i s = (phase2_body invec outVec stride ^^ nat (p - i)) s"
proof (induction invec outVec stride p i s rule: phase2.induct)
  case (1 invec outVec stride p i s)
  show ?case
  proof (cases "i < p")
    case True
    then have "nat (p - i) = Suc (nat (p - (i + 1)))" by simp
    with True 1 show ?thesis
      by (simp add: funpow_swap1 del: phase2.simps
            add: phase2.simps[of invec outVec stride p i s])
  next
    case False
    then show ?thesis by simp
  qed
qed

lemma phase3_funpow:
  "phase3 invec outVec stride p i s = (phase3_body invec outVec stride ^^ nat (p - i)) s"
proof (induction invec outVec stride p i s rule: phase3.induct)
  case (1 invec outVec stride p i s)
  show ?case
  proof (cases "i < p")
    case True
    then have "nat (p - i) = Suc (nat (p - (i + 1)))" by simp
    with True 1 show ?thesis
      by (simp add: funpow_swap1 del: phase3.simps
            add: phase3.simps[of invec outVec stride p i s])
  next
    case False
    then show ?thesis by simp
  qed
qed

lemma phase4_funpow:
  "phase4 invec outVec stride p i s = (phase4_body invec outVec stride ^^ nat (p - i)) s"
proof (induction invec outVec stride p i s rule: phase4.induct)
  case (1 invec outVec stride p i s)
  show ?case
  proof (cases "i < p")
    case True
    then have "nat (p - i) = Suc (nat (p - (i + 1)))" by simp
    with True 1 show ?thesis
      by (simp add: funpow_swap1 del: phase4.simps
            add: phase4.simps[of invec outVec stride p i s])
  next
    case False
    then show ?thesis by simp
  qed
qed

declare phase1.simps [simp del] phase2.simps [simp del] phase3.simps [simp del]
  phase4.simps [simp del] phase3_block.simps [simp del]

text \<open>The whole run, for a window of at least one sample.\<close>

lemma sdiv_half: "1 \<le> w \<Longrightarrow> (w + 2) sdiv 2 = w div 2 + 1" for w :: int
  by (simp add: signed_divide_int_def sgn_if)

lemma run_funpow:
  assumes "1 \<le> w"
  shows "box1DFloatC_run m invec outVec n stride w =
     (phase4_body invec outVec stride ^^ (nat w div 2)) (after3 m invec outVec n stride w (blocks n w))"
proof -
  have a: "nat (w div 2 + 1 - 1 - 0) = nat w div 2" using assms by (simp add: nat_div_distrib)
  have b: "nat (w - (w div 2 + 1) + 1 - 0) = nat w - nat w div 2"
    using assms by (simp add: nat_div_distrib nat_diff_distrib)
  have a': "nat (w div 2) = nat w div 2" using assms by (simp add: nat_div_distrib)
  have b': "nat (w - w div 2) = nat w - nat w div 2"
    using assms by (simp add: nat_div_distrib nat_diff_distrib)
  have c: "nat (n - w - (0 + 8 * int (blocks n w))) = nat (n - w) - 8 * blocks n w"
    unfolding blocks_def by linarith
  show ?thesis
    unfolding box1DFloatC_run_def sdiv_half[OF assms] Let_def phase1_funpow phase2_funpow
      phase3_funpow phase4_funpow phase3_block_funpow prod.case a b diff_zero
    unfolding blocks_def[symmetric] c
    by (simp add: after3_def after2_def init_state_def Let_def a' b')
qed

section \<open>Loads and stores\<close>

lemma load_store_other: "blk p \<noteq> blk q \<Longrightarrow> load (store m q i v) p j = load m p j"
  by (simp add: load_def store_def)

lemma load_writes_other: "blk p \<noteq> blk q \<Longrightarrow> load (writes m q o0 st f k) p j = load m p j"
  by (induction k) (simp_all add: load_store_other)

lemma writes_append:
  "writes m p o0 st f (k + l) =
     writes (writes m p o0 st f k) p (o0 + int k * st) st (\<lambda>j. f (k + j)) l"
  by (induction l) (simp_all add: algebra_simps)

lemma writes_cong:
  "(\<And>j. j < k \<Longrightarrow> f j = g j) \<Longrightarrow> writes m p o0 st f k = writes m p o0 st g k"
  by (induction k) simp_all


lemma load_writes_hit:
  "st \<noteq> 0 \<Longrightarrow> j < k \<Longrightarrow> load (writes m p o0 st f k) p (o0 + int j * st) = f j"
proof (induction k)
  case 0
  then show ?case by simp
next
  case (Suc k)
  show ?case
  proof (cases "j = k")
    case True
    then show ?thesis by (simp add: load_def store_def)
  next
    case False
    with Suc have "j < k" by simp
    with Suc False show ?thesis by (simp add: load_def store_def)
  qed
qed

section \<open>What each phase computes when input and output do not alias\<close>

lemma phase1_body_fields:
  "sum_acc (phase1_body invec stride s) = sum_acc s + load (mem s) invec (ri s)"
  by (simp add: phase1_body_def)

lemma phase1_sum:
  "sum_acc ((phase1_body invec stride ^^ k) s) =
     acc (\<lambda>j. load (mem s) invec (ri s + int j * stride)) (sum_acc s) k"
proof (induction k)
  case 0
  show ?case by simp
next
  case (Suc k)
  then show ?case
    using phase1_control[where k=k and s=s and invec=invec and stride=stride] by (simp add: phase1_body_fields)
qed

lemma phase2_body_fields:
  "sum_acc (phase2_body invec outVec stride s) = sum_acc s + load (mem s) invec (ri s)"
  "mem (phase2_body invec outVec stride s) =
     store (mem s) outVec (oi s)
       ((sum_acc s + load (mem s) invec (ri s)) / (currentWindowSize s + 1))"
  by (simp_all add: phase2_body_def Let_def)

lemma phase2_values:
  assumes "blk invec \<noteq> blk outVec"
  shows "sum_acc ((phase2_body invec outVec stride ^^ k) s) =
           acc (\<lambda>j. load (mem s) invec (ri s + int j * stride)) (sum_acc s) k \<and>
         mem ((phase2_body invec outVec stride ^^ k) s) =
           writes (mem s) outVec (oi s) stride
             (\<lambda>j. acc (\<lambda>j. load (mem s) invec (ri s + int j * stride)) (sum_acc s) (Suc j)
                    / count_up (currentWindowSize s) (Suc j)) k"
proof (induction k)
  case 0
  show ?case by simp
next
  case (Suc k)
  then show ?case
    using phase2_control[where k=k and s=s and invec=invec and outVec=outVec and stride=stride] assms
    by (simp add: phase2_body_fields load_writes_other)
qed

lemma phase3_body_fields:
  "sum_acc (phase3_body invec outVec stride s) =
     sum_acc s + load (mem s) invec (ri s) - load (mem s) invec (li s)"
  "mem (phase3_body invec outVec stride s) =
     store (mem s) outVec (oi s)
       ((sum_acc s + load (mem s) invec (ri s) - load (mem s) invec (li s)) / currentWindowSize s)"
  by (simp_all add: phase3_body_def Let_def)

lemma phase3_values:
  assumes "blk invec \<noteq> blk outVec"
  shows "sum_acc ((phase3_body invec outVec stride ^^ k) s) =
           slide (\<lambda>j. load (mem s) invec (ri s + int j * stride))
                 (\<lambda>j. load (mem s) invec (li s + int j * stride)) (sum_acc s) k \<and>
         mem ((phase3_body invec outVec stride ^^ k) s) =
           writes (mem s) outVec (oi s) stride
             (\<lambda>j. slide (\<lambda>j. load (mem s) invec (ri s + int j * stride))
                 (\<lambda>j. load (mem s) invec (li s + int j * stride)) (sum_acc s) (Suc j)
                    / currentWindowSize s) k"
proof (induction k)
  case 0
  show ?case by simp
next
  case (Suc k)
  then show ?case
    using phase3_control[where k=k and s=s and invec=invec and outVec=outVec and stride=stride] assms
    by (simp add: phase3_body_fields load_writes_other)
qed

lemma phase4_body_fields:
  "sum_acc (phase4_body invec outVec stride s) = sum_acc s - load (mem s) invec (li s)"
  "mem (phase4_body invec outVec stride s) =
     store (mem s) outVec (oi s)
       ((sum_acc s - load (mem s) invec (li s)) / (currentWindowSize s - 1))"
  by (simp_all add: phase4_body_def Let_def)

lemma phase4_values:
  assumes "blk invec \<noteq> blk outVec"
  shows "sum_acc ((phase4_body invec outVec stride ^^ k) s) =
           shrink (\<lambda>j. load (mem s) invec (li s + int j * stride)) (sum_acc s) k \<and>
         mem ((phase4_body invec outVec stride ^^ k) s) =
           writes (mem s) outVec (oi s) stride
             (\<lambda>j. shrink (\<lambda>j. load (mem s) invec (li s + int j * stride)) (sum_acc s) (Suc j)
                    / count_down (currentWindowSize s) (Suc j)) k"
proof (induction k)
  case 0
  show ?case by simp
next
  case (Suc k)
  then show ?case
    using phase4_control[where k=k and s=s and invec=invec and outVec=outVec and stride=stride] assms
    by (simp add: phase4_body_fields load_writes_other)
qed

lemma writes_8:
  "writes m p o0 st f 8 =
     store (store (store (store (store (store (store (store m p o0 (f 0))
       p (o0 + st * 1) (f 1)) p (o0 + st * 2) (f 2)) p (o0 + st * 3) (f 3))
       p (o0 + st * 4) (f 4)) p (o0 + st * 5) (f 5)) p (o0 + st * 6) (f 6))
       p (o0 + st * 7) (f 7)"
  by (simp add: eval_nat_numeral mult.commute)

lemma slide_8:
  "slide r l s 8 = s + r 0 - l 0 + r 1 - l 1 + r 2 - l 2 + r 3 - l 3 + r 4 - l 4
      + r 5 - l 5 + r 6 - l 6 + r 7 - l 7"
  by (simp add: eval_nat_numeral)

lemma phase3_block_body_fields:
  "sum_acc (phase3_block_body invec outVec stride denom s) =
     slide (\<lambda>j. load (mem s) invec (ri s + int j * stride))
           (\<lambda>j. load (mem s) invec (li s + int j * stride)) (sum_acc s) 8"
  "mem (phase3_block_body invec outVec stride denom s) =
     writes (mem s) outVec (oi s) stride
       (\<lambda>j. slide (\<lambda>j. load (mem s) invec (ri s + int j * stride))
                   (\<lambda>j. load (mem s) invec (li s + int j * stride)) (sum_acc s) (Suc j)
              * denom) 8"
  unfolding writes_8 slide_8
  by (simp_all add: phase3_block_body_def Let_def mult.commute eval_nat_numeral)

lemma slide_add:
  "slide r l s (k + j) = slide (\<lambda>i. r (k + i)) (\<lambda>i. l (k + i)) (slide r l s k) j"
  by (induction j) simp_all

lemma phase3_block_values:
  assumes ne: "blk invec \<noteq> blk outVec"
  shows "sum_acc ((phase3_block_body invec outVec stride denom ^^ k) s) =
           slide (\<lambda>j. load (mem s) invec (ri s + int j * stride))
                 (\<lambda>j. load (mem s) invec (li s + int j * stride)) (sum_acc s) (8 * k) \<and>
         mem ((phase3_block_body invec outVec stride denom ^^ k) s) =
           writes (mem s) outVec (oi s) stride
             (\<lambda>j. slide (\<lambda>j. load (mem s) invec (ri s + int j * stride))
                 (\<lambda>j. load (mem s) invec (li s + int j * stride)) (sum_acc s) (Suc j)
                    * denom) (8 * k)"
  (is "?S k \<and> ?M k")
proof (induction k)
  case 0
  show ?case by simp
next
  case (Suc k)
  let ?s' = "(phase3_block_body invec outVec stride denom ^^ k) s"
  let ?r = "\<lambda>j. load (mem s) invec (ri s + int j * stride)"
  let ?l = "\<lambda>j. load (mem s) invec (li s + int j * stride)"
  note c = phase3_block_control[where k=k and s=s and invec=invec and outVec=outVec
      and stride=stride and denom=denom]
  have r': "(\<lambda>j. load (mem ?s') invec (ri ?s' + int j * stride)) = (\<lambda>j. ?r (8 * k + j))"
    using Suc c ne by (simp add: load_writes_other algebra_simps)
  have l': "(\<lambda>j. load (mem ?s') invec (li ?s' + int j * stride)) = (\<lambda>j. ?l (8 * k + j))"
    using Suc c ne by (simp add: load_writes_other algebra_simps)
  have e: "8 * Suc k = 8 * k + 8" by simp
  have sS: "\<And>j. slide (\<lambda>j. ?r (8 * k + j)) (\<lambda>j. ?l (8 * k + j)) (sum_acc ?s') j
              = slide ?r ?l (sum_acc s) (8 * k + j)"
    using Suc by (simp add: slide_add)
  have S: "?S (Suc k)"
    unfolding e funpow.simps o_apply phase3_block_body_fields r' l' sS ..
  have M: "?M (Suc k)"
    unfolding e funpow.simps o_apply phase3_block_body_fields r' l' sS
    using Suc c by (simp add: writes_append[where k="8 * k" and l=8])
  from S M show ?case ..
qed

section \<open>The state between the phases\<close>

lemma count_up_add: "count_up (count_up c a) b = count_up c (a + b)"
  by (induction b) simp_all

lemma acc_add: "acc (\<lambda>j. x (a + j)) (acc x s a) b = acc x s (a + b)"
  by (induction b) simp_all

lemma map_upt_append:
  "map f [0..<a] @ map (\<lambda>j. f (a + j)) [0..<b] = map f [0..<a + b]"
proof -
  have "[0..<a + b] = [0..<a] @ [a..<a + b]"
    by (rule upt_add_eq_append) simp
  moreover have "[a..<a + b] = map (\<lambda>j. j + a) [0..<b]"
    by (simp only: map_add_upt add.commute)
  ultimately show ?thesis by (simp add: add.commute)
qed

lemma blocks_le: "8 * blocks n w \<le> nat (n - w)"
  unfolding blocks_def by linarith

lemma init_state_fields [simp]:
  "mem (init_state m) = m" "li (init_state m) = 0" "ri (init_state m) = 0"
  "oi (init_state m) = 0" "sum_acc (init_state m) = 0" "currentWindowSize (init_state m) = 0"
  "written (init_state m) = []" "divisors (init_state m) = []"
  by (simp_all add: init_state_def)

lemma after2_control:
  "li (after2 m invec outVec stride w) = 0"
  "ri (after2 m invec outVec stride w) = int (nat w) * stride"
  "oi (after2 m invec outVec stride w) = int (nat w - nat w div 2) * stride"
  "currentWindowSize (after2 m invec outVec stride w) = count_up 0 (nat w)"
  "written (after2 m invec outVec stride w) =
     map (\<lambda>j. int j * stride) [0..<nat w - nat w div 2]"
  "divisors (after2 m invec outVec stride w) =
     map (\<lambda>j. count_up 0 (nat w div 2 + Suc j)) [0..<nat w - nat w div 2]"
proof -
  let ?s1 = "(phase1_body invec stride ^^ (nat w div 2)) (init_state m)"
  note c1 = phase1_control[where s="init_state m" and k="nat w div 2" and invec=invec
      and stride=stride]
  note c2 = phase2_control[where s="?s1" and k="nat w - nat w div 2" and invec=invec
      and outVec=outVec and stride=stride]
  have e: "nat w div 2 + (nat w - nat w div 2) = nat w" by simp
  show "li (after2 m invec outVec stride w) = 0"
    unfolding after2_def using c1 c2 by simp
  show "ri (after2 m invec outVec stride w) = int (nat w) * stride"
  proof -
    have "ri (after2 m invec outVec stride w) =
        int (nat w div 2) * stride + int (nat w - nat w div 2) * stride"
      unfolding after2_def using c1 c2 by simp
    also have "\<dots> = int (nat w div 2 + (nat w - nat w div 2)) * stride"
      by (simp only: of_nat_add distrib_right)
    finally show ?thesis unfolding e .
  qed
  show "oi (after2 m invec outVec stride w) = int (nat w - nat w div 2) * stride"
    unfolding after2_def using c1 c2 by simp
  show "currentWindowSize (after2 m invec outVec stride w) = count_up 0 (nat w)"
    unfolding after2_def using c1 c2 by (simp add: count_up_add)
  show "written (after2 m invec outVec stride w) =
     map (\<lambda>j. int j * stride) [0..<nat w - nat w div 2]"
    unfolding after2_def using c1 c2 by simp
  show "divisors (after2 m invec outVec stride w) =
     map (\<lambda>j. count_up 0 (nat w div 2 + Suc j)) [0..<nat w - nat w div 2]"
    unfolding after2_def using c1 c2 by (simp add: count_up_add del: count_up.simps)
qed

lemma after3_control:
  assumes bB: "8 * B \<le> nat (n - w)"
  shows
  "li (after3 m invec outVec n stride w B) = int (nat (n - w)) * stride"
  "oi (after3 m invec outVec n stride w B) = int (nat w - nat w div 2 + nat (n - w)) * stride"
  "currentWindowSize (after3 m invec outVec n stride w B) = count_up 0 (nat w)"
  "written (after3 m invec outVec n stride w B) =
     map (\<lambda>j. int j * stride) [0..<nat w - nat w div 2 + nat (n - w)]"
  "divisors (after3 m invec outVec n stride w B) =
     map (\<lambda>j. count_up 0 (nat w div 2 + Suc j)) [0..<nat w - nat w div 2]
     @ count_up 0 (nat w) # replicate (nat (n - w) - 8 * B) (count_up 0 (nat w))"
proof -
  let ?s2 = "after2 m invec outVec stride w"
  let ?s2' = "?s2\<lparr>divisors := divisors ?s2 @ [currentWindowSize ?s2]\<rparr>"
  let ?B = "B"
  let ?R = "nat (n - w) - 8 * ?B"
  let ?s3 = "(phase3_block_body invec outVec stride (1 / currentWindowSize ?s2) ^^ ?B) ?s2'"
  note cb = phase3_block_control[where s="?s2'" and k="?B" and invec=invec and outVec=outVec
      and stride=stride and denom="1 / currentWindowSize ?s2"]
  note c3 = phase3_control[where s="?s3" and k="?R" and invec=invec and outVec=outVec
      and stride=stride]
  have e: "8 * ?B + ?R = nat (n - w)" using bB by simp
  have s: "after3 m invec outVec n stride w B = (phase3_body invec outVec stride ^^ ?R) ?s3"
    by (simp add: after3_def Let_def)
  have "li (after3 m invec outVec n stride w B) = int (8 * ?B) * stride + int ?R * stride"
    unfolding s using cb c3 by (simp add: after2_control)
  also have "\<dots> = int (8 * ?B + ?R) * stride"
    by (simp only: of_nat_add distrib_right)
  finally show "li (after3 m invec outVec n stride w B) = int (nat (n - w)) * stride"
    unfolding e .
  have "oi (after3 m invec outVec n stride w B) =
      int (nat w - nat w div 2) * stride + int (8 * ?B) * stride + int ?R * stride"
    unfolding s using cb c3 by (simp add: after2_control)
  also have "\<dots> = int (nat w - nat w div 2 + (8 * ?B + ?R)) * stride"
    by (simp only: of_nat_add distrib_right add.assoc)
  finally show "oi (after3 m invec outVec n stride w B) =
      int (nat w - nat w div 2 + nat (n - w)) * stride"
    unfolding e .
  show "currentWindowSize (after3 m invec outVec n stride w B) = count_up 0 (nat w)"
    unfolding s using cb c3 by (simp add: after2_control)
  have "written (after3 m invec outVec n stride w B) =
     (map (\<lambda>j. int j * stride) [0..<nat w - nat w div 2]
      @ map (\<lambda>j. int (nat w - nat w div 2 + j) * stride) [0..<8 * ?B])
      @ map (\<lambda>j. int (nat w - nat w div 2 + 8 * ?B + j) * stride) [0..<?R]"
    unfolding s using cb c3 by (simp add: after2_control algebra_simps)
  also have "\<dots> = map (\<lambda>j. int j * stride) [0..<nat w - nat w div 2 + 8 * ?B + ?R]"
    unfolding map_upt_append[where f="\<lambda>j. int j * stride" and a="nat w - nat w div 2"
        and b="8 * ?B"]
      map_upt_append[where f="\<lambda>j. int j * stride" and a="nat w - nat w div 2 + 8 * ?B"
        and b="?R"] ..
  finally show "written (after3 m invec outVec n stride w B) =
     map (\<lambda>j. int j * stride) [0..<nat w - nat w div 2 + nat (n - w)]"
    using e by (simp only: add.assoc)
  show "divisors (after3 m invec outVec n stride w B) =
     map (\<lambda>j. count_up 0 (nat w div 2 + Suc j)) [0..<nat w - nat w div 2]
     @ count_up 0 (nat w) # replicate (nat (n - w) - 8 * B) (count_up 0 (nat w))"
    unfolding s using cb c3 by (simp add: after2_control del: count_up.simps)
qed

lemma run_control:
  assumes "1 \<le> w"
  shows
  "written (box1DFloatC_run m invec outVec n stride w) =
     map (\<lambda>j. int j * stride) [0..<nat w + nat (n - w)]"
  "divisors (box1DFloatC_run m invec outVec n stride w) =
     map (\<lambda>j. count_up 0 (nat w div 2 + Suc j)) [0..<nat w - nat w div 2]
     @ count_up 0 (nat w) # replicate (nat (n - w) - 8 * blocks n w) (count_up 0 (nat w))
     @ map (\<lambda>j. count_down (count_up 0 (nat w)) (Suc j)) [0..<nat w div 2]"
proof -
  let ?s = "after3 m invec outVec n stride w (blocks n w)"
  note c4 = phase4_control[where s="?s" and k="nat w div 2" and invec=invec and outVec=outVec
      and stride=stride]
  have e: "nat w - nat w div 2 + nat (n - w) + nat w div 2 = nat w + nat (n - w)" by simp
  have "written (box1DFloatC_run m invec outVec n stride w) =
     map (\<lambda>j. int j * stride) [0..<nat w - nat w div 2 + nat (n - w)]
     @ map (\<lambda>j. int (nat w - nat w div 2 + nat (n - w) + j) * stride) [0..<nat w div 2]"
    unfolding run_funpow[OF assms] using c4 by (simp add: after3_control[OF blocks_le] algebra_simps)
  also have "\<dots> = map (\<lambda>j. int j * stride) [0..<nat w - nat w div 2 + nat (n - w) + nat w div 2]"
    unfolding map_upt_append[where f="\<lambda>j. int j * stride"
        and a="nat w - nat w div 2 + nat (n - w)" and b="nat w div 2"] ..
  finally show "written (box1DFloatC_run m invec outVec n stride w) =
     map (\<lambda>j. int j * stride) [0..<nat w + nat (n - w)]"
    unfolding e .
  show "divisors (box1DFloatC_run m invec outVec n stride w) =
     map (\<lambda>j. count_up 0 (nat w div 2 + Suc j)) [0..<nat w - nat w div 2]
     @ count_up 0 (nat w) # replicate (nat (n - w) - 8 * blocks n w) (count_up 0 (nat w))
     @ map (\<lambda>j. count_down (count_up 0 (nat w)) (Suc j)) [0..<nat w div 2]"
    unfolding run_funpow[OF assms] using c4
    by (simp add: after3_control[OF blocks_le] del: count_up.simps count_down.simps)
qed

section \<open>The run only stores through the output pointer\<close>

lemma writes_join:
  "writes (writes m p o0 st f a) p (o0 + int a * st) st g b =
     writes m p o0 st (\<lambda>j. if j < a then f j else g (j - a)) (a + b)"
proof -
  have "writes m p o0 st (\<lambda>j. if j < a then f j else g (j - a)) (a + b) =
      writes (writes m p o0 st (\<lambda>j. if j < a then f j else g (j - a)) a) p (o0 + int a * st) st
        (\<lambda>j. g j) b"
    by (simp add: writes_append)
  also have "writes m p o0 st (\<lambda>j. if j < a then f j else g (j - a)) a = writes m p o0 st f a"
    by (rule writes_cong) simp
  finally show ?thesis by simp
qed






section \<open>The stored values in closed form\<close>

lemma blocks_nat: "blocks n w = (nat (n - w) - 1) div 8"
  unfolding blocks_def by (cases "1 \<le> n - w") (simp_all add: nat_div_distrib nat_diff_distrib)

lemma after2_values:
  assumes ne: "blk invec \<noteq> blk outVec"
  shows "sum_acc (after2 m invec outVec stride w) = acc (\<lambda>j. load m invec (int j * stride)) 0 (nat w)"
    and "mem (after2 m invec outVec stride w) =
      writes m outVec 0 stride
        (\<lambda>j. acc (\<lambda>j. load m invec (int j * stride)) 0 (nat w div 2 + Suc j)
               / count_up 0 (nat w div 2 + Suc j)) (nat w - nat w div 2)"
proof -
  let ?x = "\<lambda>j. load m invec (int j * stride)"
  let ?P1 = "nat w div 2" and ?P2 = "nat w - nat w div 2"
  let ?s1 = "(phase1_body invec stride ^^ ?P1) (init_state m)"
  note c1 = phase1_control[where s="init_state m" and k="?P1" and invec=invec and stride=stride]
  have s1: "sum_acc ?s1 = acc ?x 0 ?P1"
    using phase1_sum[where s="init_state m" and k="?P1" and invec=invec and stride=stride]
    by simp
  have x1: "(\<lambda>j. load (mem ?s1) invec (ri ?s1 + int j * stride)) = (\<lambda>j. ?x (?P1 + j))"
    using c1 by (simp add: algebra_simps)
  note v2 = phase2_values[OF ne, where s="?s1" and k="?P2" and stride=stride, unfolded x1 s1 acc_add[where x="?x" and a="?P1"]]
  have e: "?P1 + ?P2 = nat w" by simp
  have m1: "mem ?s1 = m" "oi ?s1 = 0" "currentWindowSize ?s1 = count_up 0 ?P1" using c1 by simp_all
  show "sum_acc (after2 m invec outVec stride w) = acc ?x 0 (nat w)"
    unfolding after2_def conjunct1[OF v2] e ..
  show "mem (after2 m invec outVec stride w) =
      writes m outVec 0 stride
        (\<lambda>j. acc ?x 0 (?P1 + Suc j) / count_up 0 (?P1 + Suc j)) ?P2"
    unfolding after2_def conjunct2[OF v2] m1 count_up_add ..
qed

lemma after3_values:
  assumes ne: "blk invec \<noteq> blk outVec" and bB: "8 * B \<le> nat (n - w)"
  shows "sum_acc (after3 m invec outVec n stride w B) =
           slide (\<lambda>j. load m invec (int (nat w + j) * stride)) (\<lambda>j. load m invec (int j * stride))
             (acc (\<lambda>j. load m invec (int j * stride)) 0 (nat w)) (nat (n - w))"
    and "mem (after3 m invec outVec n stride w B) =
      writes m outVec 0 stride
        (\<lambda>j. if j < nat w - nat w div 2
              then acc (\<lambda>j. load m invec (int j * stride)) 0 (nat w div 2 + Suc j)
                     / count_up 0 (nat w div 2 + Suc j)
              else if j < nat w - nat w div 2 + 8 * B
              then slide (\<lambda>j. load m invec (int (nat w + j) * stride))
                     (\<lambda>j. load m invec (int j * stride))
                     (acc (\<lambda>j. load m invec (int j * stride)) 0 (nat w))
                     (Suc (j - (nat w - nat w div 2))) * (1 / count_up 0 (nat w))
              else slide (\<lambda>j. load m invec (int (nat w + j) * stride))
                     (\<lambda>j. load m invec (int j * stride))
                     (acc (\<lambda>j. load m invec (int j * stride)) 0 (nat w))
                     (Suc (j - (nat w - nat w div 2))) / count_up 0 (nat w))
        (nat w - nat w div 2 + nat (n - w))"
proof -
  let ?x = "\<lambda>j. load m invec (int j * stride)"
  let ?W = "nat w"
  let ?xr = "\<lambda>j. load m invec (int (?W + j) * stride)"
  let ?P1 = "nat w div 2" and ?P2 = "nat w - nat w div 2" and ?B = "B"
  let ?P3 = "nat (n - w)"
  let ?R = "?P3 - 8 * ?B"
  let ?c = "count_up (0::'a) ?W"
  let ?s0 = "acc ?x 0 ?W"
  let ?sl = "slide ?xr ?x ?s0"
  let ?f2 = "\<lambda>j. acc ?x 0 (?P1 + Suc j) / count_up 0 (?P1 + Suc j)"
  let ?s2 = "after2 m invec outVec stride w"
  let ?s2' = "?s2\<lparr>divisors := divisors ?s2 @ [currentWindowSize ?s2]\<rparr>"
  let ?s3 = "(phase3_block_body invec outVec stride (1 / currentWindowSize ?s2) ^^ ?B) ?s2'"
  have s3': "after3 m invec outVec n stride w B = (phase3_body invec outVec stride ^^ ?R) ?s3"
    by (simp add: after3_def Let_def)
  have e: "8 * ?B + ?R = ?P3" using bB by simp
  note a2 = after2_values[OF ne, of m stride w]
  have m2: "mem ?s2' = writes m outVec 0 stride ?f2 ?P2" using a2 by simp
  have m2a: "mem ?s2 = writes m outVec 0 stride ?f2 ?P2" using a2 by simp
  have r2: "(\<lambda>j. load (mem ?s2') invec (ri ?s2' + int j * stride)) = ?xr"
    by (simp add: m2a load_writes_other[OF ne] after2_control algebra_simps)
  have l2: "(\<lambda>j. load (mem ?s2') invec (li ?s2' + int j * stride)) = ?x"
    by (simp add: m2a load_writes_other[OF ne] after2_control)
  have sum2: "sum_acc ?s2' = ?s0" using a2 by simp
  have o2: "oi ?s2' = 0 + int ?P2 * stride" by (simp add: after2_control)
  have c2: "currentWindowSize ?s2 = ?c" by (simp add: after2_control)
  note vb = phase3_block_values[OF ne, where s="?s2'" and k="?B" and stride=stride
      and denom="1 / currentWindowSize ?s2", unfolded r2 l2,
      unfolded sum2 m2 o2 writes_join, unfolded c2]
  note cb = phase3_block_control[where s="?s2'" and k="?B" and invec=invec and outVec=outVec
      and stride=stride and denom="1 / currentWindowSize ?s2"]
  have sum3: "sum_acc ?s3 = ?sl (8 * ?B)" using vb by (simp add: c2)
  let ?f3 = "\<lambda>j. if j < ?P2 then ?f2 j else ?sl (Suc (j - ?P2)) * (1 / ?c)"
  have m3: "mem ?s3 = writes m outVec 0 stride ?f3 (?P2 + 8 * ?B)"
    using vb by (simp add: c2)
  have r3: "(\<lambda>j. load (mem ?s3) invec (ri ?s3 + int j * stride)) = (\<lambda>j. ?xr (8 * ?B + j))"
    unfolding m3 using cb by (simp add: load_writes_other[OF ne] after2_control algebra_simps)
  have l3: "(\<lambda>j. load (mem ?s3) invec (li ?s3 + int j * stride)) = (\<lambda>j. ?x (8 * ?B + j))"
    unfolding m3 using cb by (simp add: load_writes_other[OF ne] after2_control algebra_simps)
  have o3: "oi ?s3 = 0 + int (?P2 + 8 * ?B) * stride"
    using cb by (simp add: after2_control algebra_simps)
  have c3: "currentWindowSize ?s3 = ?c" using cb by (simp add: after2_control)
  note sa = slide_add[where r="?xr" and l="?x" and s="?s0" and k="8 * ?B", symmetric]
  note v3 = phase3_values[OF ne, where s="?s3" and k="?R" and stride=stride,
      unfolded r3 l3, unfolded sum3 m3 o3 c3 sa writes_join e]
  show "sum_acc (after3 m invec outVec n stride w B) = ?sl ?P3"
    unfolding s3' using v3 by simp
  have "mem (after3 m invec outVec n stride w B) =
      writes m outVec 0 stride
        (\<lambda>j. if j < ?P2 + 8 * ?B then ?f3 j else ?sl (8 * ?B + Suc (j - (?P2 + 8 * ?B))) / ?c)
        (?P2 + 8 * ?B + ?R)"
    unfolding s3' using v3 by simp
  also have "\<dots> = writes m outVec 0 stride
        (\<lambda>j. if j < ?P2 then ?f2 j
              else if j < ?P2 + 8 * ?B then ?sl (Suc (j - ?P2)) * (1 / ?c)
              else ?sl (Suc (j - ?P2)) / ?c) (?P2 + 8 * ?B + ?R)"
  proof (rule writes_cong)
    fix j assume "j < ?P2 + 8 * ?B + ?R"
    show "(if j < ?P2 + 8 * ?B then ?f3 j else ?sl (8 * ?B + Suc (j - (?P2 + 8 * ?B))) / ?c)
        = (if j < ?P2 then ?f2 j
              else if j < ?P2 + 8 * ?B then ?sl (Suc (j - ?P2)) * (1 / ?c)
              else ?sl (Suc (j - ?P2)) / ?c)"
    proof (cases "j < ?P2 + 8 * ?B")
      case True
      then show ?thesis by (simp only: if_True)
    next
      case False
      then have n: "\<not> j < ?P2" by simp
      from False have h: "8 * ?B + Suc (j - (?P2 + 8 * ?B)) = Suc (j - ?P2)" by simp
      show ?thesis by (simp only: False n if_False h)
    qed
  qed
  finally show "mem (after3 m invec outVec n stride w B) =
      writes m outVec 0 stride
        (\<lambda>j. if j < ?P2 then ?f2 j
              else if j < ?P2 + 8 * ?B then ?sl (Suc (j - ?P2)) * (1 / ?c)
              else ?sl (Suc (j - ?P2)) / ?c) (?P2 + ?P3)"
    using e by (simp only: add.assoc)
qed

lemma final_values:
  assumes w1: "1 \<le> w" and wn: "w \<le> n" and ne: "blk invec \<noteq> blk outVec"
    and bB: "8 * B \<le> nat (n - w)"
  shows "mem ((phase4_body invec outVec stride ^^ (nat w div 2)) (after3 m invec outVec n stride w B)) =
     writes m outVec 0 stride
       (box_out (\<lambda>j. load m invec (int j * stride)) (nat n) (nat w) B) (nat n)"
proof -
  let ?x = "\<lambda>j. load m invec (int j * stride)"
  let ?W = "nat w"
  let ?xr = "\<lambda>j. load m invec (int (?W + j) * stride)"
  let ?P1 = "nat w div 2" and ?P2 = "nat w - nat w div 2" and ?B = "B"
  let ?P3 = "nat (n - w)"
  let ?c = "count_up (0::'a) ?W"
  let ?s0 = "acc ?x 0 ?W"
  let ?sl = "slide ?xr ?x ?s0"
  let ?f2 = "\<lambda>j. acc ?x 0 (?P1 + Suc j) / count_up 0 (?P1 + Suc j)"
  let ?g3 = "\<lambda>j. if j < ?P2 then ?f2 j
              else if j < ?P2 + 8 * ?B then ?sl (Suc (j - ?P2)) * (1 / ?c)
              else ?sl (Suc (j - ?P2)) / ?c"
  let ?sh = "shrink (\<lambda>j. ?x (?P3 + j)) (?sl ?P3)"
  let ?s = "after3 m invec outVec n stride w B"
  note a3 = after3_values[OF ne bB, of m stride]
  note c3 = after3_control[OF bB, of m invec outVec stride]
  have l3: "(\<lambda>j. load (mem ?s) invec (li ?s + int j * stride)) = (\<lambda>j. ?x (?P3 + j))"
    unfolding a3(2) c3(1) by (simp add: load_writes_other[OF ne] algebra_simps)
  have o3: "oi ?s = 0 + int (?P2 + ?P3) * stride" unfolding c3(2) by simp
  note v4 = phase4_values[OF ne, where s="?s" and k="?P1" and stride=stride,
      unfolded l3, unfolded a3 c3(3) o3 writes_join]
  have N: "?P2 + ?P3 + ?P1 = nat n" using w1 wn by linarith
  have "mem ((phase4_body invec outVec stride ^^ ?P1) ?s) =
      writes m outVec 0 stride
        (\<lambda>j. if j < ?P2 + ?P3 then ?g3 j
              else ?sh (Suc (j - (?P2 + ?P3))) / count_down ?c (Suc (j - (?P2 + ?P3))))
        (?P2 + ?P3 + ?P1)"
    using v4 by blast
  also have "\<dots> = writes m outVec 0 stride (box_out ?x (nat n) (nat w) B) (?P2 + ?P3 + ?P1)"
  proof (rule writes_cong)
    fix j assume "j < ?P2 + ?P3 + ?P1"
    have p3: "nat n - nat w = ?P3" using w1 wn by linarith
    have bo: "box_out ?x (nat n) (nat w) B j =
        (if j < ?P2 then ?f2 j
         else if j < ?P2 + 8 * ?B then ?sl (Suc (j - ?P2)) * (1 / ?c)
         else if j < ?P2 + ?P3 then ?sl (Suc (j - ?P2)) / ?c
         else ?sh (Suc (j - ?P2 - ?P3)) / count_down ?c (Suc (j - ?P2 - ?P3)))"
      unfolding box_out_def Let_def p3 ..
    have le: "?P2 + 8 * ?B \<le> ?P2 + ?P3" by (rule add_left_mono) (rule bB)
    show "(if j < ?P2 + ?P3 then ?g3 j
              else ?sh (Suc (j - (?P2 + ?P3))) / count_down ?c (Suc (j - (?P2 + ?P3))))
          = box_out ?x (nat n) (nat w) B j"
    proof (cases "j < ?P2 + ?P3")
      case True
      show ?thesis
      proof (cases "j < ?P2 + 8 * ?B")
        case T2: True
        show ?thesis unfolding bo by (simp only: True T2 if_True)
      next
        case F2: False
        then have "\<not> j < ?P2" by linarith
        then show ?thesis unfolding bo by (simp only: True F2 if_True if_False)
      qed
    next
      case False
      then have n1: "\<not> j < ?P2" and n2: "\<not> j < ?P2 + 8 * ?B" using le by linarith+
      have h: "j - ?P2 - ?P3 = j - (?P2 + ?P3)" by (rule diff_diff_left)
      show ?thesis unfolding bo by (simp only: False n1 n2 if_False h)
    qed
  qed
  finally show ?thesis unfolding N .
qed

lemma run_values:
  assumes w1: "1 \<le> w" and wn: "w \<le> n" and ne: "blk invec \<noteq> blk outVec"
  shows "box1DFloatC m invec outVec n stride w =
     writes m outVec 0 stride
       (box_out (\<lambda>j. load m invec (int j * stride)) (nat n) (nat w) (blocks n w)) (nat n)"
  unfolding box1DFloatC_def run_funpow[OF w1]
  by (rule final_values[OF w1 wn ne blocks_le])

lemma fallback_funpow:
  assumes "1 \<le> w"
  shows "box1DFloatC_fallback_run m invec outVec n stride w =
     (phase4_body invec outVec stride ^^ (nat w div 2)) (after3 m invec outVec n stride w 0)"
proof -
  have a': "nat (w div 2) = nat w div 2" using assms by (simp add: nat_div_distrib)
  have b': "nat (w - w div 2) = nat w - nat w div 2"
    using assms by (simp add: nat_div_distrib nat_diff_distrib)
  show ?thesis
    unfolding box1DFloatC_fallback_run_def sdiv_half[OF assms] Let_def phase1_funpow
      phase2_funpow phase3_funpow phase4_funpow
    by (simp add: after3_def after2_def init_state_def Let_def a' b')
qed

lemma fallback_values:
  assumes w1: "1 \<le> w" and wn: "w \<le> n" and ne: "blk invec \<noteq> blk outVec"
  shows "box1DFloatC_fallback m invec outVec n stride w =
     writes m outVec 0 stride
       (box_out (\<lambda>j. load m invec (int j * stride)) (nat n) (nat w) 0) (nat n)"
  unfolding box1DFloatC_fallback_def fallback_funpow[OF w1]
  by (rule final_values[OF w1 wn ne]) simp

lemma box1D_load:
  assumes "1 \<le> w" "w \<le> n" "blk invec \<noteq> blk outVec" "stride \<noteq> 0" "k < nat n"
  shows "load (box1DFloatC m invec outVec n stride w) outVec (int k * stride) =
     box_out (\<lambda>j. load m invec (int j * stride)) (nat n) (nat w) (blocks n w) k"
  unfolding run_values[OF assms(1,2,3)]
  using load_writes_hit[OF assms(4,5), where ?o0.0=0] by simp

lemma box1D_fallback_load:
  assumes "1 \<le> w" "w \<le> n" "blk invec \<noteq> blk outVec" "stride \<noteq> 0" "k < nat n"
  shows "load (box1DFloatC_fallback m invec outVec n stride w) outVec (int k * stride) =
     box_out (\<lambda>j. load m invec (int j * stride)) (nat n) (nat w) 0 k"
  unfolding fallback_values[OF assms(1,2,3)]
  using load_writes_hit[OF assms(4,5), where ?o0.0=0] by simp


section \<open>Exact arithmetic: the stored value is a window mean\<close>

lemma count_up_exact: "count_up c k = c + of_nat k" for c :: "'a::semiring_1"
  by (induction k) (simp_all add: algebra_simps)

lemma count_down_exact: "count_down c k = c - of_nat k" for c :: "'a::ring_1"
  by (induction k) (simp_all add: algebra_simps)

lemma acc_exact: "acc x s k = s + sum x {0..<k}" for s :: "'a::comm_monoid_add"
  by (induction k) (simp_all add: algebra_simps)

lemma slide_exact: "slide r l s k = s + sum r {0..<k} - sum l {0..<k}" for s :: "'a::ab_group_add"
  by (induction k) (simp_all add: algebra_simps)

lemma shrink_exact: "shrink l s k = s - sum l {0..<k}" for s :: "'a::ab_group_add"
  by (induction k) (simp_all add: algebra_simps)

lemma sum_shift: "sum (\<lambda>j. x (a + j)) {0..<t} = sum x {a..<a + t}" for x :: "nat \<Rightarrow> 'a::comm_monoid_add"
  using sum.shift_bounds_nat_ivl[of x 0 a t] by (simp add: add.commute)

lemma sum_split: "a \<le> b \<Longrightarrow> sum x {0..<b} - sum x {0..<a} = sum x {a..<b}"
  for x :: "nat \<Rightarrow> 'a::ab_group_add"
  using sum.atLeastLessThan_concat[of 0 a b x] by (simp add: algebra_simps)

lemma sum_split2: "a \<le> b \<Longrightarrow> b \<le> c \<Longrightarrow> sum x {a..<c} - sum x {a..<b} = sum x {b..<c}"
  for x :: "nat \<Rightarrow> 'a::ab_group_add"
  using sum.atLeastLessThan_concat[of a b c x] by (simp add: algebra_simps)

lemma window_mean_sum:
  "window_mean x N before after k =
     sum x {k - before..<Suc (min (N - 1) (k + after))}
       / of_nat (Suc (min (N - 1) (k + after)) - (k - before))"
  unfolding window_mean_def Let_def interv_sum_list_conv_sum_set_nat set_upt ..

lemma if_recip: "(if C then s * (1 / c) else s / c) = s / c" for s :: "'a::field"
  by simp

lemma slide_window:
  fixes x :: "nat \<Rightarrow> 'a::ab_group_add"
  shows "slide (\<lambda>j. x (W + j)) x (acc x 0 W) t = sum x {t..<W + t}"
proof -
  have "slide (\<lambda>j. x (W + j)) x (acc x 0 W) t =
      sum x {0..<W} + sum x {W..<W + t} - sum x {0..<t}"
    by (simp add: slide_exact acc_exact sum_shift)
  also have "sum x {0..<W} + sum x {W..<W + t} = sum x {0..<W + t}"
    by (rule sum.atLeastLessThan_concat) simp_all
  also have "sum x {0..<W + t} - sum x {0..<t} = sum x {t..<W + t}"
    by (rule sum_split) simp
  finally show ?thesis .
qed

lemma box_out_exact:
  fixes x :: "nat \<Rightarrow> 'a::field"
  assumes W1: "1 \<le> W" and WN: "W \<le> N" and kN: "k < N" and bB: "8 * B \<le> N - W"
  shows "box_out x N W B k = window_mean x N ((W - 1) div 2) (W div 2) k"
proof -
  define P1 where "P1 = W div 2"
  define P2 where "P2 = W - P1"
  define P3 where "P3 = N - W"
  have p1: "2 * P1 \<le> W" "W \<le> 2 * P1 + 1" unfolding P1_def by presburger+
  have h: "(W - 1) div 2 = P2 - 1" unfolding P2_def P1_def by presburger
  have P2pos: "1 \<le> P2" and PW: "P1 + P2 = W" unfolding P2_def using W1 p1 by linarith+
  have PN: "W + P3 = N" unfolding P3_def using WN by simp
  have bo: "box_out x N W B k =
      (if k < P2 then acc x 0 (P1 + Suc k) / count_up 0 (P1 + Suc k)
       else if k < P2 + 8 * B
         then slide (\<lambda>j. x (W + j)) x (acc x 0 W) (Suc (k - P2)) * (1 / count_up 0 W)
       else if k < P2 + P3
         then slide (\<lambda>j. x (W + j)) x (acc x 0 W) (Suc (k - P2)) / count_up 0 W
       else shrink (\<lambda>j. x (P3 + j)) (slide (\<lambda>j. x (W + j)) x (acc x 0 W) P3)
              (Suc (k - P2 - P3)) / count_down (count_up 0 W) (Suc (k - P2 - P3)))"
    unfolding box_out_def Let_def P1_def P2_def P3_def ..
  have wm: "window_mean x N ((W - 1) div 2) (W div 2) k =
      sum x {k - (P2 - 1)..<Suc (min (N - 1) (k + P1))}
        / of_nat (Suc (min (N - 1) (k + P1)) - (k - (P2 - 1)))"
    unfolding window_mean_sum h P1_def ..
  consider (a) "k < P2" | (b) "P2 \<le> k" "k < P2 + P3" | (c) "P2 + P3 \<le> k"
    by linarith
  then show ?thesis
  proof cases
    case a
    have lo: "k - (P2 - 1) = 0" using a by linarith
    have hi: "min (N - 1) (k + P1) = k + P1" using a WN PW by linarith
    have "box_out x N W B k = acc x 0 (P1 + Suc k) / count_up 0 (P1 + Suc k)"
      unfolding bo by (simp only: a if_True)
    also have "\<dots> = sum x {0..<Suc (k + P1)} / of_nat (Suc (k + P1))"
      by (simp add: acc_exact count_up_exact add.commute del: acc.simps count_up.simps)
    finally show ?thesis unfolding wm lo hi by simp
  next
    case b
    let ?t = "Suc (k - P2)"
    have lo: "k - (P2 - 1) = ?t" using b P2pos by linarith
    have hi: "min (N - 1) (k + P1) = k + P1" using b PW PN by linarith
    have e: "Suc (k + P1) = W + ?t" using b PW by linarith
    have c: "W + ?t - ?t = W" by simp
    have n1: "\<not> k < P2" using b by linarith
    have "box_out x N W B k =
        (if k < P2 + 8 * B
         then slide (\<lambda>j. x (W + j)) x (acc x 0 W) ?t * (1 / count_up 0 W)
         else slide (\<lambda>j. x (W + j)) x (acc x 0 W) ?t / count_up 0 W)"
      unfolding bo by (simp only: n1 b(2) if_True if_False)
    also have "\<dots> = slide (\<lambda>j. x (W + j)) x (acc x 0 W) ?t / count_up 0 W"
      by (rule if_recip)
    also have "\<dots> = sum x {?t..<W + ?t} / of_nat W"
      unfolding slide_window by (simp add: count_up_exact)
    finally show ?thesis unfolding wm lo hi e c .
  next
    case c
    let ?t = "Suc (k - P2 - P3)"
    have lo: "k - (P2 - 1) = P3 + ?t" using c P2pos by linarith
    have hi: "min (N - 1) (k + P1) = N - 1" using c PW PN by linarith
    have e: "Suc (N - 1) = N" using kN by simp
    have tW: "?t \<le> W" using c kN PW PN by linarith
    have cnt: "N - (P3 + ?t) = W - ?t" using PN by linarith
    have b8: "8 * B \<le> P3" using bB unfolding P3_def .
    have n1: "\<not> k < P2" "\<not> k < P2 + 8 * B" "\<not> k < P2 + P3" using c b8 by linarith+
    have "box_out x N W B k =
        shrink (\<lambda>j. x (P3 + j)) (slide (\<lambda>j. x (W + j)) x (acc x 0 W) P3) ?t
          / count_down (count_up 0 W) ?t"
      unfolding bo by (simp only: n1 if_False)
    also have "shrink (\<lambda>j. x (P3 + j)) (slide (\<lambda>j. x (W + j)) x (acc x 0 W) P3) ?t =
        sum x {P3..<W + P3} - sum x {P3..<P3 + ?t}"
      unfolding slide_window shrink_exact sum_shift ..
    also have "sum x {P3..<W + P3} - sum x {P3..<P3 + ?t} = sum x {P3 + ?t..<W + P3}"
      by (rule sum_split2) (use c kN PW PN in linarith)+
    also have "count_down (count_up (0::'a) W) ?t = of_nat (W - ?t)"
      using tW by (simp add: count_down_exact count_up_exact of_nat_diff del: of_nat_Suc)
    finally show ?thesis unfolding wm lo hi e cnt PN .
  qed
qed


lemma blocks_le_nat: "w \<le> n \<Longrightarrow> 1 \<le> w \<Longrightarrow> 8 * blocks n w \<le> nat n - nat w"
  using blocks_le[of n w] by linarith




section \<open>A row of five samples\<close>

lemma row_example_f32:
  "k < 5 \<Longrightarrow>
   load (box1DFloatC (buf_of (Num 0) [Num 0, Num 0, Num 0, Num 10, Num 0]) (Ptr 0 0) (Ptr 1 0) 5 1 3)
     (Ptr 1 0) (int k) =
   box_out (\<lambda>j. load (buf_of (Num 0) [Num 0, Num 0, Num 0, Num 10, Num 0]) (Ptr 0 0) (int j * 1))
     (nat 5) (nat 3) (blocks 5 3) k"
  using box1D_load[of 3 5 "Ptr 0 0" "Ptr 1 0" 1 k
      "buf_of (Num 0) [Num 0, Num 0, Num 0, Num 10, Num 0]"] by simp

lemma row_example_f32_values:
  "map (box_out (\<lambda>j. load (buf_of (Num 0) [Num 0, Num 0, Num 0, Num 10, Num 0]) (Ptr 0 0) (int j * 1))
     (nat 5) (nat 3) (blocks 5 3)) [0, 1, 2, 3, 4]
   = [Num 0, Num 0, Num 10 / Num 3, Num 10 / Num 3, Num 5]"
  by code_simp

lemma row_example_f32_quotient: "Num 10 / Num 3 = Num (13981013 / 4194304)"
  by code_simp

section \<open>The outputs depend on the input samples only\<close>







section \<open>The row pass, the column pass and their repetition\<close>

















section \<open>Counting in binary32\<close>

text \<open>
  Counting up by \<open>1\<close> in binary32 is exact up to \<open>2 ^ 24 = 16777216\<close> and stays there:
  \<open>16777216 + 1\<close> lies halfway between two binary32 values and rounds to the even one.
  Counting down from at most \<open>2 ^ 24\<close> is exact.
\<close>

lemma round_half_even_int: "round_half_even (of_int z) = z"
  by (simp add: round_half_even_def)

lemma round32_small_nat:
  assumes "1 \<le> j" and "j < 16777216"
  shows "round32 (of_nat j) = Num (of_nat j)"
proof -
  define e where "e = bitlen (int j) - 1"
  define s where "s = nat (23 - e)"
  have jpos: "0 < int j" using assms by simp
  have "bitlen (int j) \<le> 24"
    using assms(2) by (simp add: bitlen_le_iff_power)
  moreover have "1 \<le> bitlen (int j)"
    using jpos bitlen_eq_zero_iff[of "int j"] bitlen_nonneg[of "int j"] by linarith
  ultimately have e: "0 \<le> e" "e \<le> 23" unfolding e_def by simp_all
  have il: "ilog2 (of_nat j) = e"
    using assms(1) by (simp add: ilog2_def e_def)
  have mx: "max e (- 126) = e" using e by simp
  have es: "e - 23 = - int s" unfolding s_def using e by simp
  have u: "(2::rat) powi (e - 23) = inverse (2 ^ s)"
    unfolding es power_int_minus by simp
  have q: "(of_nat j :: rat) / inverse (2 ^ s) = of_int (int j * 2 ^ s)"
    by (simp add: divide_inverse)
  have v: "(of_int (int j * 2 ^ s) :: rat) * inverse (2 ^ s) = of_nat j"
    by simp
  have big: "\<not> (2 ^ 128 \<le> (of_nat j :: rat))"
  proof -
    have "(of_nat j :: rat) < of_nat 16777216" using assms(2) by (simp only: of_nat_less_iff)
    then show ?thesis by simp
  qed
  have nz: "int j * 2 ^ s \<noteq> 0" using jpos by simp
  show ?thesis
    unfolding round32_def Let_def abs_of_nat il mx u q round_half_even_int v
    using big nz by simp
qed

lemma round32_limit: "round32 16777216 = Num 16777216" "round32 16777217 = Num 16777216"
  by code_simp+

lemma round32_nat:
  assumes "1 \<le> j" and "j \<le> 16777216"
  shows "round32 (of_nat j) = Num (of_nat j)"
proof (cases "j < 16777216")
  case True
  with assms(1) show ?thesis by (rule round32_small_nat)
next
  case False
  with assms(2) have "j = 16777216" by simp
  then show ?thesis using round32_limit(1) by simp
qed

lemma f32_increment:
  "Num (of_nat k) + 1 = Num (of_nat (min (Suc k) 16777216))" if "k \<le> 16777216"
proof (cases "k < 16777216")
  case True
  have "Num (of_nat k) + 1 = round32 (of_nat (Suc k))"
    by (simp add: plus_f32_def one_f32_def Let_def add.commute)
  also have "\<dots> = Num (of_nat (Suc k))"
    by (rule round32_nat) (use True in simp_all)
  finally show ?thesis using True by simp
next
  case False
  with that have k: "k = 16777216" by simp
  have "Num 16777216 + 1 = Num 16777216" by code_simp
  then show ?thesis unfolding k by simp
qed

lemma f32_decrement:
  "Num (of_nat k) - 1 = Num (of_nat (k - 1))" if "1 \<le> k" "k \<le> 16777216"
proof (cases "k = 1")
  case True
  have "Num 1 - 1 = Num 0" by code_simp
  then show ?thesis unfolding True by simp
next
  case False
  with that have k: "2 \<le> k" by simp
  have d: "(of_nat k :: rat) + - 1 = of_nat (k - 1)" using k by (simp add: of_nat_diff)
  have ne: "(of_nat (k - 1) :: rat) \<noteq> 0" using k by simp
  have "Num (of_nat k) - 1 = round32 (of_nat k + - 1)"
    unfolding minus_f32_def one_f32_def f32_neg.simps f32_add.simps f32_val.simps Let_def d
    using ne by simp
  then have "Num (of_nat k) - 1 = round32 (of_nat (k - 1))" unfolding d .
  also have "\<dots> = Num (of_nat (k - 1))"
    by (rule round32_nat) (use k that in simp_all)
  finally show ?thesis .
qed

lemma f32_count_up: "count_up (0::f32) k = Num (of_nat (min k 16777216))"
proof (induction k)
  case 0
  show ?case by (simp add: zero_f32_def)
next
  case (Suc k)
  have "count_up (0::f32) (Suc k) = Num (of_nat (min k 16777216)) + 1"
    using Suc by simp
  also have "\<dots> = Num (of_nat (min (Suc (min k 16777216)) 16777216))"
    by (rule f32_increment) simp
  also have "min (Suc (min k 16777216)) 16777216 = min (Suc k) (16777216::nat)" by simp
  finally show ?case .
qed

lemma f32_count_down:
  "t \<le> c \<Longrightarrow> c \<le> 16777216 \<Longrightarrow> count_down (Num (of_nat c)) t = Num (of_nat (c - t))"
proof (induction t)
  case 0
  show ?case by simp
next
  case (Suc t)
  then have "count_down (Num (of_nat c)) (Suc t) = Num (of_nat (c - t)) - 1" by simp
  also have "\<dots> = Num (of_nat (c - t - 1))"
    by (rule f32_decrement) (use Suc.prems in simp_all)
  finally show ?case by simp
qed

lemma f32_pos: "(0::f32) < Num r \<longleftrightarrow> 0 < r"
  by (simp add: less_f32_def zero_f32_def)

lemma f32_divisors_positive:
  fixes m :: "f32 memory"
  assumes w1: "1 \<le> w" and wb: "w < 33554432"
  shows "\<forall>d\<in>set (divisors (box1DFloatC_run m invec outVec n stride w)). 0 < d"
proof
  fix d assume "d \<in> set (divisors (box1DFloatC_run m invec outVec n stride w))"
  then consider
      (up) j where "d = count_up 0 (nat w div 2 + Suc j)"
    | (full) "d = count_up 0 (nat w)"
    | (down) j where "j < nat w div 2" "d = count_down (count_up 0 (nat w)) (Suc j)"
    unfolding run_control(2)[OF w1] by auto
  then show "0 < d"
  proof cases
    case up
    show ?thesis unfolding up f32_count_up f32_pos by simp
  next
    case full
    show ?thesis unfolding full f32_count_up f32_pos using w1 by simp
  next
    case down
    have le: "Suc j \<le> min (nat w) 16777216" using down(1) w1 wb by linarith
    have "d = Num (of_nat (min (nat w) 16777216 - Suc j))"
      unfolding down(2) f32_count_up by (rule f32_count_down[OF le]) simp
    moreover have "0 < min (nat w) 16777216 - Suc j" using down(1) w1 wb by linarith
    ultimately show ?thesis by (simp only: f32_pos of_nat_0_less_iff)
  qed
qed

lemma loops_zero_iterations:
  assumes "p \<le> 0"
  shows "phase1 invec stride p 0 s1 = s1" "phase2 invec outVec stride p 0 s2 = s2"
    "phase3_block invec outVec stride denom p 0 s3 = (0, s3)"
    "phase3 invec outVec stride p 0 s4 = s4" "phase4 invec outVec stride p 0 s5 = s5"
  using assms
  by (simp_all add: phase1.simps phase2.simps phase3.simps phase4.simps phase3_block.simps)

section \<open>The claims\<close>




text \<open>
  C2, as stated, fails in binary32: the unrolled loop multiplies the running sum by the
  rounded reciprocal \<open>1 / windowSize\<close>, the single-step loop divides it by
  \<open>windowSize\<close>, and the two round differently. With window 3 on twelve samples
  \<open>5, 0, 0, 5, 0, 0, \<dots>\<close> the running sum is \<open>5\<close> throughout; at position 2 the unrolled
  loop stores \<open>5 * fl(1/3) = 6990507/4194304\<close> and the single-step variant stores
  \<open>fl(5/3) = 13981013/8388608\<close>.
\<close>

theorem box1DFloatC_unrolled_differs_counterexample:
  "load (box1DFloatC
           (buf_of (Num 0) [Num 5, Num 0, Num 0, Num 5, Num 0, Num 0, Num 5, Num 0, Num 0,
              Num 5, Num 0, Num 0]) (Ptr 0 0) (Ptr 1 0) 12 1 3) (Ptr 1 0) 2
     = Num (6990507 / 4194304)
   \<and> load (box1DFloatC_fallback
           (buf_of (Num 0) [Num 5, Num 0, Num 0, Num 5, Num 0, Num 0, Num 5, Num 0, Num 0,
              Num 5, Num 0, Num 0]) (Ptr 0 0) (Ptr 1 0) 12 1 3) (Ptr 1 0) 2
     = Num (13981013 / 8388608)"
proof -
  let ?m = "buf_of (Num 0) [Num 5, Num 0, Num 0, Num 5, Num 0, Num 0, Num 5, Num 0, Num 0,
              Num 5, Num 0, Num 0]"
  have a: "load (box1DFloatC ?m (Ptr 0 0) (Ptr 1 0) 12 1 3) (Ptr 1 0) (int 2 * 1) =
      box_out (\<lambda>j. load ?m (Ptr 0 0) (int j * 1)) (nat 12) (nat 3) (blocks 12 3) 2"
    by (rule box1D_load) simp_all
  have b: "load (box1DFloatC_fallback ?m (Ptr 0 0) (Ptr 1 0) 12 1 3) (Ptr 1 0) (int 2 * 1) =
      box_out (\<lambda>j. load ?m (Ptr 0 0) (int j * 1)) (nat 12) (nat 3) 0 2"
    by (rule box1D_fallback_load) simp_all
  have va: "box_out (\<lambda>j. load ?m (Ptr 0 0) (int j * 1)) (nat 12) (nat 3) (blocks 12 3) 2
      = Num (6990507 / 4194304)"
    by code_simp
  have vb: "box_out (\<lambda>j. load ?m (Ptr 0 0) (int j * 1)) (nat 12) (nat 3) 0 2
      = Num (13981013 / 8388608)"
    by code_simp
  from a b va vb show ?thesis by simp
qed

text \<open>
  C2, amended: for every length, stride and \<open>windowSize\<close> in \<open>[1, length]\<close>, with the input
  and the output in different buffers and with exact arithmetic, \<^verbatim>\<open>box1DFloatC\<close> (unrolled
  loop, then single steps) leaves the same memory as the variant whose phase 3 runs
  through the single-step loop only.
\<close>

theorem box1DFloatC_unrolled_eq_fallback_exact:
  fixes m :: "'a::field memory"
  assumes "1 \<le> w" and "w \<le> n" and "blk invec \<noteq> blk outVec"
  shows "box1DFloatC m invec outVec n stride w = box1DFloatC_fallback m invec outVec n stride w"
proof -
  let ?x = "\<lambda>j. load m invec (int j * stride)"
  have "writes m outVec 0 stride (box_out ?x (nat n) (nat w) (blocks n w)) (nat n) =
      writes m outVec 0 stride (box_out ?x (nat n) (nat w) 0) (nat n)"
  proof (rule writes_cong)
    fix j assume j: "j < nat n"
    have "box_out ?x (nat n) (nat w) (blocks n w) j =
        window_mean ?x (nat n) ((nat w - 1) div 2) (nat w div 2) j"
      by (rule box_out_exact) (use assms j blocks_le_nat[of w n] in linarith)+
    also have "\<dots> = box_out ?x (nat n) (nat w) 0 j"
      by (rule box_out_exact[symmetric]) (use assms j in linarith)+
    finally show "box_out ?x (nat n) (nat w) (blocks n w) j = box_out ?x (nat n) (nat w) 0 j" .
  qed
  then show ?thesis
    unfolding run_values[OF assms] fallback_values[OF assms] .
qed

theorem box1DFloatC_unrolled_eq_fallback_exact_witness:
  "(1::int) \<le> 3 \<and> (3::int) \<le> 12 \<and> blk (Ptr 0 0) \<noteq> blk (Ptr 1 0)
   \<and> box1DFloatC (buf_of (0::rat) [5, 0, 0, 5, 0, 0, 5, 0, 0, 5, 0, 0]) (Ptr 0 0) (Ptr 1 0) 12 1 3
       = box1DFloatC_fallback (buf_of (0::rat) [5, 0, 0, 5, 0, 0, 5, 0, 0, 5, 0, 0])
           (Ptr 0 0) (Ptr 1 0) 12 1 3"
  using box1DFloatC_unrolled_eq_fallback_exact[of 3 12 "Ptr 0 0" "Ptr 1 0"
      "buf_of (0::rat) [5, 0, 0, 5, 0, 0, 5, 0, 0, 5, 0, 0]" 1]
  by simp

text \<open>
  C3, as stated, fails in binary32 for very large windows: \<^verbatim>\<open>currentWindowSize\<close> is a
  \<^verbatim>\<open>float\<close> counted up by \<open>1\<close>, so it stops at \<open>2 ^ 24 = 16777216\<close>; phase 4 then counts it
  down \<open>fullWindowSize / 2\<close> times. With \<open>fullWindowSize = vectorLength = 2 ^ 25 =
  33554432\<close> the last division of phase 4 divides by \<open>0\<close>.
\<close>

theorem box1DFloatC_divisor_zero_counterexample:
  "Num 0 \<in> set (divisors (box1DFloatC_run (buf_of (Num 0) [])
              (Ptr 0 0) (Ptr 1 0) 33554432 1 33554432))
   \<and> \<not> (0::f32) < Num 0"
proof -
  let ?f = "\<lambda>j. count_down (count_up (0::f32) (nat 33554432)) (Suc j)"
  have w: "(1::int) \<le> 33554432" by simp
  have h: "nat 33554432 div 2 = (16777216::nat)" by simp
  have "(16777215::nat) \<in> {0..<16777216}" by simp
  then have "?f 16777215 \<in> ?f ` {0..<16777216}" by (rule imageI)
  moreover have "?f 16777215 = Num 0"
  proof -
    have "min (nat 33554432) 16777216 = (16777216::nat)" by simp
    moreover have "Suc 16777215 = 16777216" by simp
    ultimately show ?thesis
      unfolding f32_count_up using f32_count_down[of 16777216 16777216] by simp
  qed
  ultimately have m: "Num 0 \<in> set (map ?f [0..<nat 33554432 div 2])"
    unfolding h set_map set_upt by (simp only:)
  have "Num 0 \<in> set (divisors (box1DFloatC_run (buf_of (Num 0) [])
              (Ptr 0 0) (Ptr 1 0) 33554432 1 33554432))"
    unfolding run_control(2)[OF w] set_append set_simps Un_iff insert_iff
    by (simp only: m simp_thms)
  moreover have "\<not> (0::f32) < Num 0" by (simp add: f32_pos)
  ultimately show ?thesis ..
qed

text \<open>
  C3, amended: for every \<open>fullWindowSize\<close> in \<open>[1, vectorLength]\<close> below \<open>2 ^ 25 =
  33554432\<close>, in binary32 arithmetic, the divisor of every division that \<^verbatim>\<open>box1DFloatC\<close>
  performs (phase 2, the reciprocal before phase 3, the single steps of phase 3, phase 4)
  is strictly positive; and each loop whose count is zero or negative returns the state
  it was given, its body not executed.
\<close>

theorem box1DFloatC_divisor_positive:
  fixes m :: "f32 memory"
  assumes "1 \<le> fullWindowSize" and "fullWindowSize \<le> vectorLength"
    and "fullWindowSize < 33554432"
  shows "(\<forall>d\<in>set (divisors (box1DFloatC_run m invec outVec vectorLength stride fullWindowSize)).
            0 < d)
    \<and> (\<forall>p s. p \<le> 0 \<longrightarrow>
           phase1 invec stride p 0 s = s
         \<and> phase2 invec outVec stride p 0 s = s
         \<and> phase3_block invec outVec stride denom p 0 s = (0, s)
         \<and> phase3 invec outVec stride p 0 s = s
         \<and> phase4 invec outVec stride p 0 s = s)"
proof (intro conjI allI impI)
  show "\<forall>d\<in>set (divisors (box1DFloatC_run m invec outVec vectorLength stride fullWindowSize)).
            0 < d"
    by (rule f32_divisors_positive[OF assms(1,3)])
qed (rule loops_zero_iterations, assumption)+

theorem box1DFloatC_divisor_positive_witness:
  "(1::int) \<le> 3 \<and> (3::int) \<le> 5 \<and> (3::int) < 33554432
   \<and> divisors (box1DFloatC_run (buf_of (Num 0) [Num 0, Num 0, Num 0, Num 10, Num 0])
        (Ptr 0 0) (Ptr 1 0) 5 1 3) = [Num 2, Num 3, Num 3, Num 3, Num 3, Num 2]
   \<and> list_all ((<) 0) (divisors (box1DFloatC_run
        (buf_of (Num 0) [Num 0, Num 0, Num 0, Num 10, Num 0]) (Ptr 0 0) (Ptr 1 0) 5 1 3))
   \<and> phase4 (Ptr 0 0) (Ptr 1 0) 1 (- 1) 0 (init_state (buf_of (Num 0) [Num 1]))
        = init_state (buf_of (Num 0) [Num 1])"
proof -
  let ?m = "buf_of (Num 0) [Num 0, Num 0, Num 0, Num 10, Num 0]"
  have h: "(1::int) \<le> 3" "(3::int) \<le> 5" "(3::int) < 33554432" by simp_all
  note t = box1DFloatC_divisor_positive[OF h, of ?m "Ptr 0 0" "Ptr 1 0" 1 "Num 1"]
  have v: "map (\<lambda>j. count_up (0::f32) (nat 3 div 2 + Suc j)) [0..<nat 3 - nat 3 div 2]
     @ count_up 0 (nat 3) # replicate (nat (5 - 3) - 8 * blocks 5 3) (count_up 0 (nat 3))
     @ map (\<lambda>j. count_down (count_up 0 (nat 3)) (Suc j)) [0..<nat 3 div 2]
     = [Num 2, Num 3, Num 3, Num 3, Num 3, Num 2]"
    by code_simp
  have d: "divisors (box1DFloatC_run ?m (Ptr 0 0) (Ptr 1 0) 5 1 3)
      = [Num 2, Num 3, Num 3, Num 3, Num 3, Num 2]"
    unfolding run_control(2)[OF h(1)] by (rule v)
  from t have a: "list_all ((<) 0) (divisors (box1DFloatC_run ?m (Ptr 0 0) (Ptr 1 0) 5 1 3))"
    unfolding list_all_iff by blast
  from t have "(- 1::int) \<le> 0 \<longrightarrow>
      phase4 (Ptr 0 0) (Ptr 1 0) 1 (- 1) 0 (init_state (buf_of (Num 0) [Num 1]))
        = init_state (buf_of (Num 0) [Num 1])"
    by blast
  then have b: "phase4 (Ptr 0 0) (Ptr 1 0) 1 (- 1) 0 (init_state (buf_of (Num 0) [Num 1]))
        = init_state (buf_of (Num 0) [Num 1])"
    by simp
  from h d a b show ?thesis by (intro conjI)
qed

text \<open>
  C4: on the five samples \<open>[0, 0, 0, 10, 0]\<close> with stride 1 and window 3,
  \<^verbatim>\<open>box1DFloatC\<close> stores \<open>[0, 0, 10/3, 10/3, 5]\<close>: in binary32 arithmetic, where \<open>10/3\<close> is
  the binary32 quotient \<open>13981013/4194304\<close>, and in exact arithmetic.
\<close>

theorem box1DFloatC_row_example:
  "map (load (box1DFloatC (buf_of (Num 0) [Num 0, Num 0, Num 0, Num 10, Num 0])
                (Ptr 0 0) (Ptr 1 0) 5 1 3) (Ptr 1 0)) [0, 1, 2, 3, 4]
     = [Num 0, Num 0, Num 10 / Num 3, Num 10 / Num 3, Num 5]
   \<and> Num 10 / Num 3 = Num (13981013 / 4194304)
   \<and> map (load (box1DFloatC (buf_of (0::rat) [0, 0, 0, 10, 0])
                (Ptr 0 0) (Ptr 1 0) 5 1 3) (Ptr 1 0)) [0, 1, 2, 3, 4]
     = [0, 0, 10 / 3, 10 / 3, 5]"
proof -
  have r: "map (load (box1DFloatC (buf_of (0::rat) [0, 0, 0, 10, 0])
                (Ptr 0 0) (Ptr 1 0) 5 1 3) (Ptr 1 0)) [0, 1, 2, 3, 4]
     = [0, 0, 10 / 3, 10 / 3, 5]"
    by (simp add: box1DFloatC_def box1DFloatC_run_def Let_def load_def store_def
      phase1.simps phase2.simps phase3.simps phase4.simps phase3_block.simps
      phase1_body_def phase2_body_def phase3_body_def phase4_body_def signed_divide_int_def
      buf_of_def)
  have f: "map (load (box1DFloatC (buf_of (Num 0) [Num 0, Num 0, Num 0, Num 10, Num 0])
                (Ptr 0 0) (Ptr 1 0) 5 1 3) (Ptr 1 0)) [0, 1, 2, 3, 4]
     = [Num 0, Num 0, Num 10 / Num 3, Num 10 / Num 3, Num 5]"
    using row_example_f32[of 0] row_example_f32[of 1] row_example_f32[of 2]
      row_example_f32[of 3] row_example_f32[of 4] row_example_f32_values
    by simp
  from r f row_example_f32_quotient show ?thesis by simp
qed









text \<open>
  C8: with \<open>nreps = 0\<close>, \<^verbatim>\<open>jaroszFilterFloat\<close> leaves the whole memory, and so buffer 1,
  unchanged, for all buffers, dimensions and window sizes.
\<close>

theorem jaroszFilterFloat_zero_repetitions:
  "jaroszFilterFloat m buffer1 buffer2 numRows numCols windowSizeAlongRows windowSizeAlongCols 0
     = m"
  by (simp add: jaroszFilterFloat_def)





end
